theory Spec2Isabelle
  imports Main
begin

section \<open>Values, errors and the outcome of a call\<close>

text \<open>
  Items travel through the pipeline as Go \<^verbatim>\<open>interface{}\<close> values. The ones that occur are
  the nil interface, strings (lines of a file), integers, and the
  \<^verbatim>\<open>map[string]interface{}\<close> that \<^verbatim>\<open>Run\<close> of \<^verbatim>\<open>handlers.go\<close> hands to the result handler.
\<close>

datatype val = VNil | VStr string | VInt int | VMap "string \<Rightarrow> val option"

text \<open>
  Go \<^verbatim>\<open>error\<close> values: \<^verbatim>\<open>io.EOF\<close>, the error of a read on a closed file, the error
  \<^verbatim>\<open>errors.New("handlers already running")\<close>, and any other error, named by its message.
  The nil error is \<open>None\<close> in \<open>error option\<close>.
\<close>

datatype error = EOF | ErrClosed | ErrRunning | Other string

text \<open>
  A call either returns, panics (a nil pointer is dereferenced), or is still running when
  the bound on the number of \<^verbatim>\<open>Next\<close> calls is used up.
\<close>

datatype 'a outcome = Returned 'a | Panicked | OutOfFuel

section \<open>File sources\<close>

text \<open>
  \<^verbatim>\<open>FileSource\<close>: \<open>fhandle\<close> tells whether the handle is non-nil (open), \<open>r\<close> holds the bytes
  the \<^verbatim>\<open>bufio.Reader\<close> has not delivered yet. Reads succeed up to the end of the bytes; the
  only read errors are the end of file and a read on a closed handle. A file is closed by
  \<^verbatim>\<open>Next\<close> alone, after a read error, when no bytes are left; a \<^verbatim>\<open>Close\<close> called by
  hand in the middle of a file is outside the model.
\<close>

record FileSource =
  fhandle :: bool
  r :: string

text \<open>
  \<^verbatim>\<open>bufio.Reader.ReadString(delim)\<close>: the bytes up to and including the first \<open>delim\<close>;
  when the input ends first, the bytes read so far together with \<^verbatim>\<open>io.EOF\<close>.
\<close>

definition ReadString :: "FileSource \<Rightarrow> char \<Rightarrow> (string \<times> error option) \<times> FileSource" where
  "ReadString fs delim =
     (if \<not> fhandle fs then (([], Some ErrClosed), fs)
      else (case dropWhile (\<lambda>c. c \<noteq> delim) (r fs) of
              [] \<Rightarrow> ((r fs, Some EOF), fs\<lparr>r := []\<rparr>)
            | c # rest \<Rightarrow> ((takeWhile (\<lambda>c. c \<noteq> delim) (r fs) @ [c], None), fs\<lparr>r := rest\<rparr>)))"

definition Close :: "FileSource \<Rightarrow> error option \<times> FileSource" where
  "Close fs = (if fhandle fs then (None, fs\<lparr>fhandle := False\<rparr>) else (None, fs))"

definition FileSource_Next :: "FileSource \<Rightarrow> (val \<times> error option) \<times> FileSource" where
  "FileSource_Next fs =
     (let ((line, err), fs1) = ReadString fs CHR ''\<newline>'';
          fs2 = (if err \<noteq> None then snd (Close fs1) else fs1)
      in ((VStr line, err), fs2))"

text \<open>
  \<^verbatim>\<open>MultiFileSrc\<close>: the opened files and the index of the current one (a Go \<^verbatim>\<open>int\<close> that
  starts at 0 and is only ever incremented by \<^verbatim>\<open>Next\<close>).
\<close>

record MultiFileSrc =
  src :: "FileSource list"
  index :: nat

definition MultiFileSrc_Next :: "MultiFileSrc \<Rightarrow> (val \<times> error option) \<times> MultiFileSrc" where
  "MultiFileSrc_Next mfs =
     (if index mfs \<ge> length (src mfs) then ((VNil, Some EOF), mfs)
      else
        (let ((data, err), fs) = FileSource_Next (src mfs ! index mfs);
             mfs1 = mfs\<lparr>src := (src mfs)[index mfs := fs]\<rparr>
         in if err \<noteq> None then
              (let mfs2 = mfs1\<lparr>index := index mfs1 + 1\<rparr>
               in if err = Some EOF \<and> index mfs2 < length (src mfs2)
                  then ((data, None), mfs2)
                  else ((data, err), mfs2))
            else ((data, err), mfs1)))"

text \<open>The results of \<open>n\<close> successive \<^verbatim>\<open>Next\<close> calls on a multi-file source, in call order.\<close>

fun nexts :: "nat \<Rightarrow> MultiFileSrc \<Rightarrow> (val \<times> error option) list \<times> MultiFileSrc" where
  "nexts 0 mfs = ([], mfs)"
| "nexts (Suc n) mfs =
     (let (x, mfs1) = MultiFileSrc_Next mfs;
          (xs, mfs2) = nexts n mfs1
      in (x # xs, mfs2))"

text \<open>The multi-file source over two open files holding \<^verbatim>\<open>"x\n"\<close> and \<^verbatim>\<open>"y\nz"\<close>.\<close>

definition twoFiles :: MultiFileSrc where
  "twoFiles = \<lparr>src = [\<lparr>fhandle = True, r = ''x\<newline>''\<rparr>, \<lparr>fhandle = True, r = ''y\<newline>z''\<rparr>], index = 0\<rparr>"

section \<open>Sources and the list container\<close>

text \<open>
  A \<^verbatim>\<open>Source\<close> is any Go value with a method \<^verbatim>\<open>Next() (data interface{}, err error)\<close>.
  The model is the object itself: its identity \<open>ref\<close> (the pointer behind the interface
  value), its private state \<open>self\<close>, and the method as a function of that state that returns
  the result together with the new state. Interface values held by the pipeline are non-nil.
  Objects are stored by value, so the model is of pipelines on which no source and no
  handler is registered twice.
\<close>

record 's Source =
  ref :: nat
  self :: 's
  Next :: "'s \<Rightarrow> (val \<times> error option) \<times> 's"

definition callNext :: "'s Source \<Rightarrow> (val \<times> error option) \<times> 's Source" where
  "callNext s = (let (res, st) = Next s (self s) in (res, s\<lparr>self := st\<rparr>))"

text \<open>
  \<^verbatim>\<open>*list.List\<close> of Go's \<^verbatim>\<open>container/list\<close>, as far as the pipeline uses it: \<open>None\<close> is the
  nil pointer, \<open>Some xs\<close> a list with the elements \<open>xs\<close> from front to back. An element
  pointer is \<open>None\<close> (nil) or \<open>Some v\<close> with the value it carries.
  \<^item> \<^verbatim>\<open>Front\<close> reads \<^verbatim>\<open>l.len\<close>, so it panics on a nil list, and returns nil on an empty one;
  \<^item> \<^verbatim>\<open>Remove(e)\<close> starts with \<^verbatim>\<open>e.list == l\<close>, so it panics on a nil element; the element
    the pipeline removes is always the one \<^verbatim>\<open>Front\<close> has just returned, the head;
  \<^item> \<^verbatim>\<open>PushBack\<close> starts with \<^verbatim>\<open>l.lazyInit()\<close>, which reads \<^verbatim>\<open>l.root.next\<close>, so it panics on
    a nil list.
\<close>

definition Front :: "'a list option \<Rightarrow> 'a option outcome" where
  "Front l = (case l of None \<Rightarrow> Panicked
                      | Some [] \<Rightarrow> Returned None
                      | Some (x # xs) \<Rightarrow> Returned (Some x))"

definition Remove :: "'a list option \<Rightarrow> 'a option \<Rightarrow> 'a list option outcome" where
  "Remove l e = (case e of None \<Rightarrow> Panicked | Some x \<Rightarrow> Returned (map_option tl l))"

definition PushBack :: "'a list option \<Rightarrow> 'a \<Rightarrow> 'a list option outcome" where
  "PushBack l v = (case l of None \<Rightarrow> Panicked | Some xs \<Rightarrow> Returned (Some (xs @ [v])))"

text \<open>
  \<^verbatim>\<open>safeList\<close> embeds a \<^verbatim>\<open>*list.List\<close> next to its lock. The pipeline is modelled as the
  single goroutine that calls it, so the locks carry no state. \<^verbatim>\<open>new(safeList)\<close>, used by
  \<^verbatim>\<open>handlers.go\<close>, is the zero value, whose embedded pointer is nil; \<^verbatim>\<open>newSafeList()\<close> of
  the error-returning variant allocates the list with \<^verbatim>\<open>list.New()\<close>.
\<close>

datatype 'a safeList = SafeList (List: "'a list option")

definition new_safeList :: "'a safeList" where
  "new_safeList = SafeList None"

definition newSafeList :: "'a safeList" where
  "newSafeList = SafeList (Some [])"

datatype Status = StatusInit | StatusRunning | StatusStop

section \<open>The error-returning pipeline\<close>

text \<open>
  The variant whose \<^verbatim>\<open>Run\<close> returns an error. Its names carry the suffix \<open>E\<close>. A handler has
  the single method \<^verbatim>\<open>Handle(in) (out, err)\<close>.
\<close>

record 't HandlerE =
  hselfE :: 't
  HandleE :: "'t \<Rightarrow> val \<Rightarrow> (val \<times> error option) \<times> 't"

definition callHandleE :: "'t HandlerE \<Rightarrow> val \<Rightarrow> (val \<times> error option) \<times> 't HandlerE" where
  "callHandleE hdl d = (let (res, st) = HandleE hdl (hselfE hdl) d in (res, hdl\<lparr>hselfE := st\<rparr>))"

record ('s, 't) HandlersE =
  todoSrcE :: "'s Source safeList option"
  doneSrcE :: "'s Source safeList option"
  handlersE :: "'t HandlerE safeList option"
  stateE :: Status
  ErrCheck :: "(error option \<Rightarrow> bool) option"

text \<open>The zero value of the struct, the pipeline a caller starts from.\<close>

definition zeroE :: "('s, 't) HandlersE" where
  "zeroE = \<lparr>todoSrcE = None, doneSrcE = None, handlersE = None, stateE = StatusInit, ErrCheck = None\<rparr>"

definition AddSrcE :: "('s, 't) HandlersE \<Rightarrow> 's Source \<Rightarrow> unit outcome \<times> ('s, 't) HandlersE" where
  "AddSrcE h s =
     (let l = (case todoSrcE h of None \<Rightarrow> newSafeList | Some l \<Rightarrow> l)
      in case PushBack (List l) s of
           Returned l' \<Rightarrow> (Returned (), h\<lparr>todoSrcE := Some (SafeList l')\<rparr>)
         | _ \<Rightarrow> (Panicked, h\<lparr>todoSrcE := Some l\<rparr>))"

definition popSrcE :: "('s, 't) HandlersE \<Rightarrow> 's Source option outcome \<times> ('s, 't) HandlersE" where
  "popSrcE h =
     (case todoSrcE h of
        None \<Rightarrow> (Returned None, h)
      | Some l \<Rightarrow>
          (case Front (List l) of
             Returned ele \<Rightarrow>
               (case Remove (List l) ele of
                  Returned l' \<Rightarrow> (Returned ele, h\<lparr>todoSrcE := Some (SafeList l')\<rparr>)
                | _ \<Rightarrow> (Panicked, h))
           | _ \<Rightarrow> (Panicked, h)))"

definition srcDoneE :: "('s, 't) HandlersE \<Rightarrow> 's Source \<Rightarrow> unit outcome \<times> ('s, 't) HandlersE" where
  "srcDoneE h s =
     (let l = (case doneSrcE h of None \<Rightarrow> newSafeList | Some l \<Rightarrow> l)
      in case PushBack (List l) s of
           Returned l' \<Rightarrow> (Returned (), h\<lparr>doneSrcE := Some (SafeList l')\<rparr>)
         | _ \<Rightarrow> (Panicked, h\<lparr>doneSrcE := Some l\<rparr>))"

definition AddHandlerE :: "('s, 't) HandlersE \<Rightarrow> 't HandlerE \<Rightarrow> unit outcome \<times> ('s, 't) HandlersE" where
  "AddHandlerE h hdl =
     (let l = (case handlersE h of None \<Rightarrow> newSafeList | Some l \<Rightarrow> l)
      in case PushBack (List l) hdl of
           Returned l' \<Rightarrow> (Returned (), h\<lparr>handlersE := Some (SafeList l')\<rparr>)
         | _ \<Rightarrow> (Panicked, h\<lparr>handlersE := Some l\<rparr>))"

definition defaultErrFunc :: "error option \<Rightarrow> bool" where
  "defaultErrFunc err = (if err = None \<or> err = Some EOF then True else False)"

text \<open>
  The inner loop of \<^verbatim>\<open>handleSrc\<close>: every handler, front to back, replaces both \<open>d\<close> and
  \<open>err\<close> by what its \<^verbatim>\<open>Handle\<close> returns for the current \<open>d\<close>.
\<close>

fun chainE :: "'t HandlerE list \<Rightarrow> val \<times> error option
                \<Rightarrow> (val \<times> error option) \<times> 't HandlerE list" where
  "chainE [] de = (de, [])"
| "chainE (hdl # hdls) de =
     (let (de1, hdl1) = callHandleE hdl (fst de);
          (de2, hdls1) = chainE hdls de1
      in (de2, hdl1 # hdls1))"

text \<open>
  The outer loop of \<^verbatim>\<open>handleSrc\<close>, which has no exit condition of its own: one round calls
  \<^verbatim>\<open>Next\<close>, runs the chain (whose first step, \<^verbatim>\<open>Front\<close>, panics on a nil list) and returns
  when \<open>err\<close> is non-nil after the chain. The first argument bounds the number of rounds.
\<close>

fun loopE :: "nat \<Rightarrow> 't HandlerE list option \<Rightarrow> 's Source
               \<Rightarrow> error option outcome \<times> 's Source \<times> 't HandlerE list option" where
  "loopE 0 l s = (OutOfFuel, s, l)"
| "loopE (Suc n) l s =
     (let (de, s1) = callNext s
      in case l of
           None \<Rightarrow> (Panicked, s1, l)
         | Some hdls \<Rightarrow>
             (let ((d, err), hdls1) = chainE hdls de
              in if err \<noteq> None then (Returned err, s1, Some hdls1)
                 else loopE n (Some hdls1) s1))"

definition handleSrcE :: "nat \<Rightarrow> ('s, 't) HandlersE \<Rightarrow> 's Source
                           \<Rightarrow> error option outcome \<times> 's Source \<times> ('s, 't) HandlersE" where
  "handleSrcE n h s =
     (case handlersE h of
        None \<Rightarrow> (Returned None, s, h)
      | Some l \<Rightarrow>
          (let (out, s1, l1) = loopE n (List l) s
           in (out, s1, h\<lparr>handlersE := Some (SafeList l1)\<rparr>)))"

text \<open>The sources in the pending and in the done queue (none when the queue is nil).\<close>

definition pendingE :: "('s, 't) HandlersE \<Rightarrow> 's Source list" where
  "pendingE h = (case todoSrcE h of Some (SafeList (Some xs)) \<Rightarrow> xs | _ \<Rightarrow> [])"

definition doneE :: "('s, 't) HandlersE \<Rightarrow> 's Source list" where
  "doneE h = (case doneSrcE h of Some (SafeList (Some xs)) \<Rightarrow> xs | _ \<Rightarrow> [])"

text \<open>
  The loop of \<^verbatim>\<open>Run\<close>: pop, \<^verbatim>\<open>handleSrc\<close>, \<^verbatim>\<open>srcDone\<close>, and return the error unless
  \<^verbatim>\<open>ErrCheck\<close> lets it pass (calling a nil \<^verbatim>\<open>ErrCheck\<close> would panic). It ends because every
  round shortens the pending queue. The bound \<open>n\<close> is the one given to each \<^verbatim>\<open>handleSrc\<close>.
  A panic leaves the pipeline as it was at that moment; a source that was popped and not yet
  marked done is lost with it.
\<close>

function drainE :: "nat \<Rightarrow> ('s, 't) HandlersE \<Rightarrow> error option outcome \<times> ('s, 't) HandlersE" where
  "drainE n h =
     (case popSrcE h of
        (Returned None, h1) \<Rightarrow> (Returned None, h1)
      | (Returned (Some s), h1) \<Rightarrow>
          (case handleSrcE n h1 s of
             (Returned err, s1, h2) \<Rightarrow>
               (case srcDoneE h2 s1 of
                  (Returned u, h3) \<Rightarrow>
                    (if err \<noteq> None then
                       (case ErrCheck h3 of
                          None \<Rightarrow> (Panicked, h3)
                        | Some f \<Rightarrow> if \<not> f err then (Returned err, h3) else drainE n h3)
                     else drainE n h3)
                | (Panicked, h3) \<Rightarrow> (Panicked, h3)
                | (OutOfFuel, h3) \<Rightarrow> (OutOfFuel, h3))
           | (Panicked, s1, h2) \<Rightarrow> (Panicked, h2)
           | (OutOfFuel, s1, h2) \<Rightarrow> (OutOfFuel, h2))
      | (Panicked, h1) \<Rightarrow> (Panicked, h1)
      | (OutOfFuel, h1) \<Rightarrow> (OutOfFuel, h1))"
  by pat_completeness auto
termination
proof -
  have pop: "length (pendingE h1) < length (pendingE h)"
    if "(Returned (Some s), h1) = popSrcE h" for s and h h1 :: "('s, 't) HandlersE"
    using that [symmetric]
    by (auto simp: popSrcE_def pendingE_def Front_def Remove_def
             split: option.splits outcome.splits list.splits safeList.splits)
  have handle: "pendingE h2 = pendingE h1"
    if "(out, s1, h2) = handleSrcE n h1 s" for out n s s1 and h1 h2 :: "('s, 't) HandlersE"
    using that [symmetric]
    by (auto simp: handleSrcE_def pendingE_def split: option.splits prod.splits)
  have push: "pendingE h3 = pendingE h2"
    if "(out, h3) = srcDoneE h2 s1" for out s1 and h2 h3 :: "('s, 't) HandlersE"
    using that [symmetric]
    by (auto simp: srcDoneE_def pendingE_def PushBack_def Let_def
             split: option.splits outcome.splits)
  show ?thesis
    by (relation "measure (\<lambda>(n, h). length (pendingE h))") (auto dest!: pop handle push)
qed

declare drainE.simps [simp del]

definition RunE :: "nat \<Rightarrow> ('s, 't) HandlersE \<Rightarrow> error option outcome \<times> ('s, 't) HandlersE" where
  "RunE n h =
     (if stateE h = StatusRunning then (Returned (Some ErrRunning), h)
      else
        (let h1 = h\<lparr>stateE := StatusRunning\<rparr>;
             h2 = (if ErrCheck h1 = None then h1\<lparr>ErrCheck := Some defaultErrFunc\<rparr> else h1)
         in drainE n h2))"

section \<open>The pipeline with a result handler\<close>

text \<open>
  The variant of \<^verbatim>\<open>handlers.go\<close>, whose \<^verbatim>\<open>Run\<close> returns nothing. A handler has an \<^verbatim>\<open>ID\<close>,
  a \<^verbatim>\<open>Handle\<close> that returns the item for the next handler, and a \<^verbatim>\<open>Result\<close> read from its
  state. The result handler is an object of its own, not one of the chain.

  \<^verbatim>\<open>AddSrc\<close>, \<^verbatim>\<open>srcDone\<close> and \<^verbatim>\<open>AddHandler\<close> of this file create a missing queue with
  \<^verbatim>\<open>new(safeList)\<close>, so the \<^verbatim>\<open>PushBack\<close> that follows finds a nil list. The functions that
  read the queues are written for any queue, and the theorems about them hold for every
  value of the struct, whether or not these three functions can build it.
\<close>

record 't Handler =
  hself :: 't
  ID :: string
  Handle :: "'t \<Rightarrow> val \<Rightarrow> val \<times> 't"
  Result :: "'t \<Rightarrow> val"

definition callHandle :: "'t Handler \<Rightarrow> val \<Rightarrow> val \<times> 't Handler" where
  "callHandle hdl d = (let (res, st) = Handle hdl (hself hdl) d in (res, hdl\<lparr>hself := st\<rparr>))"

definition callResult :: "'t Handler \<Rightarrow> val" where
  "callResult hdl = Result hdl (hself hdl)"

record ('s, 't) Handlers =
  todoSrc :: "'s Source safeList option"
  doneSrc :: "'s Source safeList option"
  handlers :: "'t Handler safeList option"
  resultHandler :: "'t Handler option"
  state :: Status

definition zero :: "('s, 't) Handlers" where
  "zero = \<lparr>todoSrc = None, doneSrc = None, handlers = None, resultHandler = None, state = StatusInit\<rparr>"

definition AddSrc :: "('s, 't) Handlers \<Rightarrow> 's Source \<Rightarrow> unit outcome \<times> ('s, 't) Handlers" where
  "AddSrc h s =
     (let l = (case todoSrc h of None \<Rightarrow> new_safeList | Some l \<Rightarrow> l)
      in case PushBack (List l) s of
           Returned l' \<Rightarrow> (Returned (), h\<lparr>todoSrc := Some (SafeList l')\<rparr>)
         | _ \<Rightarrow> (Panicked, h\<lparr>todoSrc := Some l\<rparr>))"

definition popSrc :: "('s, 't) Handlers \<Rightarrow> 's Source option outcome \<times> ('s, 't) Handlers" where
  "popSrc h =
     (case todoSrc h of
        None \<Rightarrow> (Returned None, h)
      | Some l \<Rightarrow>
          (case Front (List l) of
             Returned ele \<Rightarrow>
               (case Remove (List l) ele of
                  Returned l' \<Rightarrow> (Returned ele, h\<lparr>todoSrc := Some (SafeList l')\<rparr>)
                | _ \<Rightarrow> (Panicked, h))
           | _ \<Rightarrow> (Panicked, h)))"

definition srcDone :: "('s, 't) Handlers \<Rightarrow> 's Source \<Rightarrow> unit outcome \<times> ('s, 't) Handlers" where
  "srcDone h s =
     (let l = (case doneSrc h of None \<Rightarrow> new_safeList | Some l \<Rightarrow> l)
      in case PushBack (List l) s of
           Returned l' \<Rightarrow> (Returned (), h\<lparr>doneSrc := Some (SafeList l')\<rparr>)
         | _ \<Rightarrow> (Panicked, h\<lparr>doneSrc := Some l\<rparr>))"

definition AddHandler :: "('s, 't) Handlers \<Rightarrow> 't Handler \<Rightarrow> unit outcome \<times> ('s, 't) Handlers" where
  "AddHandler h hdl =
     (let l = (case handlers h of None \<Rightarrow> new_safeList | Some l \<Rightarrow> l)
      in case PushBack (List l) hdl of
           Returned l' \<Rightarrow> (Returned (), h\<lparr>handlers := Some (SafeList l')\<rparr>)
         | _ \<Rightarrow> (Panicked, h\<lparr>handlers := Some l\<rparr>))"

definition SetResultHandler :: "('s, 't) Handlers \<Rightarrow> 't Handler \<Rightarrow> ('s, 't) Handlers" where
  "SetResultHandler h hdl = h\<lparr>resultHandler := Some hdl\<rparr>"

text \<open>The inner loop of \<^verbatim>\<open>handleSrc\<close>: \<open>d\<close> is replaced by each handler's output in turn.\<close>

fun chain :: "'t Handler list \<Rightarrow> val \<Rightarrow> val \<times> 't Handler list" where
  "chain [] d = (d, [])"
| "chain (hdl # hdls) d =
     (let (d1, hdl1) = callHandle hdl d;
          (d2, hdls1) = chain hdls d1
      in (d2, hdl1 # hdls1))"

text \<open>
  The outer loop of \<^verbatim>\<open>handleSrc\<close>: it runs while \<^verbatim>\<open>Next\<close> returns a nil error, and the item
  that comes with an error is not handled. The first argument bounds the number of rounds.
\<close>

fun loop :: "nat \<Rightarrow> 't Handler list option \<Rightarrow> 's Source
              \<Rightarrow> unit outcome \<times> 's Source \<times> 't Handler list option" where
  "loop 0 l s = (OutOfFuel, s, l)"
| "loop (Suc n) l s =
     (let ((d, err), s1) = callNext s
      in if err = None then
           (case l of
              None \<Rightarrow> (Panicked, s1, l)
            | Some hdls \<Rightarrow> (let (d1, hdls1) = chain hdls d in loop n (Some hdls1) s1))
         else (Returned (), s1, l))"

definition handleSrc :: "nat \<Rightarrow> ('s, 't) Handlers \<Rightarrow> 's Source
                          \<Rightarrow> unit outcome \<times> 's Source \<times> ('s, 't) Handlers" where
  "handleSrc n h s =
     (case handlers h of
        None \<Rightarrow> (Returned (), s, h)
      | Some l \<Rightarrow>
          (let (out, s1, l1) = loop n (List l) s
           in (out, s1, h\<lparr>handlers := Some (SafeList l1)\<rparr>)))"

definition pending :: "('s, 't) Handlers \<Rightarrow> 's Source list" where
  "pending h = (case todoSrc h of Some (SafeList (Some xs)) \<Rightarrow> xs | _ \<Rightarrow> [])"

text \<open>The loop of \<^verbatim>\<open>Run\<close>: pop and \<^verbatim>\<open>handleSrc\<close>, until \<^verbatim>\<open>popSrc\<close> returns nil.\<close>

function drain :: "nat \<Rightarrow> ('s, 't) Handlers \<Rightarrow> unit outcome \<times> ('s, 't) Handlers" where
  "drain n h =
     (case popSrc h of
        (Returned None, h1) \<Rightarrow> (Returned (), h1)
      | (Returned (Some s), h1) \<Rightarrow>
          (case handleSrc n h1 s of
             (Returned u, s1, h2) \<Rightarrow> drain n h2
           | (Panicked, s1, h2) \<Rightarrow> (Panicked, h2)
           | (OutOfFuel, s1, h2) \<Rightarrow> (OutOfFuel, h2))
      | (Panicked, h1) \<Rightarrow> (Panicked, h1)
      | (OutOfFuel, h1) \<Rightarrow> (OutOfFuel, h1))"
  by pat_completeness auto
termination
proof -
  have pop: "length (pending h1) < length (pending h)"
    if "(Returned (Some s), h1) = popSrc h" for s and h h1 :: "('s, 't) Handlers"
    using that [symmetric]
    by (auto simp: popSrc_def pending_def Front_def Remove_def
             split: option.splits outcome.splits list.splits safeList.splits)
  have handle: "pending h2 = pending h1"
    if "(out, s1, h2) = handleSrc n h1 s" for out n s s1 and h1 h2 :: "('s, 't) Handlers"
    using that [symmetric]
    by (auto simp: handleSrc_def pending_def split: option.splits prod.splits)
  show ?thesis
    by (relation "measure (\<lambda>(n, h). length (pending h))") (auto dest!: pop handle)
qed

declare drain.simps [simp del]

text \<open>
  The result mapping: \<^verbatim>\<open>results[handler.ID()] = handler.Result()\<close>, front to back. The
  walk starts with \<^verbatim>\<open>h.handlers.Front()\<close>, which panics on a nil list.
\<close>

fun collect :: "'t Handler list \<Rightarrow> (string \<Rightarrow> val option) \<Rightarrow> (string \<Rightarrow> val option)" where
  "collect [] results = results"
| "collect (hdl # hdls) results = collect hdls (results(ID hdl \<mapsto> callResult hdl))"

definition Run :: "nat \<Rightarrow> ('s, 't) Handlers \<Rightarrow> unit outcome \<times> ('s, 't) Handlers" where
  "Run n h =
     (if state h = StatusRunning then (Returned (), h)
      else
        (case drain n (h\<lparr>state := StatusRunning\<rparr>) of
           (Returned u, h1) \<Rightarrow>
             (case (resultHandler h1, handlers h1) of
                (Some rh, Some l) \<Rightarrow>
                  (case List l of
                     None \<Rightarrow> (Panicked, h1)
                   | Some hdls \<Rightarrow>
                       (let results = collect hdls Map.empty;
                            (out, rh1) = callHandle rh (VMap results)
                        in (Returned (), h1\<lparr>resultHandler := Some rh1\<rparr>)))
              | _ \<Rightarrow> (Returned (), h1))
         | (Panicked, h1) \<Rightarrow> (Panicked, h1)
         | (OutOfFuel, h1) \<Rightarrow> (OutOfFuel, h1)))"

section \<open>The items seen by the handlers of a chain\<close>

text \<open>
  The arguments of the successive \<^verbatim>\<open>Handle\<close> calls that the inner loop of \<^verbatim>\<open>handleSrc\<close>
  makes for one item \<open>d\<close>, front to back, in either variant.
\<close>

fun fed :: "'t Handler list \<Rightarrow> val \<Rightarrow> val list" where
  "fed [] d = []"
| "fed (hdl # hdls) d = d # fed hdls (fst (callHandle hdl d))"

fun fedE :: "'t HandlerE list \<Rightarrow> val \<Rightarrow> val list" where
  "fedE [] d = []"
| "fedE (hdl # hdls) d = d # fedE hdls (fst (fst (callHandleE hdl d)))"

section \<open>A run as the specification words it\<close>

text \<open>
  A caller builds a pipeline by calling \<^verbatim>\<open>AddHandler\<close> and \<^verbatim>\<open>AddSrc\<close>, one call for each
  handler and each source: \<open>chainedE h hdls\<close> and \<open>registerE h srcs\<close> make these calls in
  list order.
\<close>

definition chainedE :: "('s, 't) HandlersE \<Rightarrow> 't HandlerE list \<Rightarrow> ('s, 't) HandlersE" where
  "chainedE h hdls = foldl (\<lambda>h hdl. snd (AddHandlerE h hdl)) h hdls"

definition registerE :: "('s, 't) HandlersE \<Rightarrow> 's Source list \<Rightarrow> ('s, 't) HandlersE" where
  "registerE h srcs = foldl (\<lambda>h s. snd (AddSrcE h s)) h srcs"

text \<open>
  The specification describes a run by the order in which the sources are visited: the
  registered sources are taken in registration order, each is handed to \<^verbatim>\<open>handleSrc\<close>, and
  the next one is taken only when that call has returned with no error or with one that the
  error check \<open>chk\<close> lets pass. \<open>visitsE\<close> is the record of these visits, written from those
  words over the list of registered sources: the outcome of each \<^verbatim>\<open>handleSrc\<close> call with the
  source as the call left it, and the pipeline (of which \<^verbatim>\<open>handleSrc\<close> changes the handlers
  only) after the last visit. The theorems compare it with the loop of \<^verbatim>\<open>Run\<close>, which works
  on the queues.
\<close>

definition returned :: "'a outcome \<Rightarrow> bool" where
  "returned out = (case out of Returned x \<Rightarrow> True | _ \<Rightarrow> False)"

definition goesOn :: "(error option \<Rightarrow> bool) \<Rightarrow> error option outcome \<Rightarrow> bool" where
  "goesOn chk out = (case out of Returned err \<Rightarrow> err = None \<or> chk err | _ \<Rightarrow> False)"

fun visitsE :: "nat \<Rightarrow> (error option \<Rightarrow> bool) \<Rightarrow> ('s, 't) HandlersE \<Rightarrow> 's Source list
                 \<Rightarrow> (error option outcome \<times> 's Source) list \<times> ('s, 't) HandlersE" where
  "visitsE n chk h [] = ([], h)"
| "visitsE n chk h (s # ss) =
     (let (out, s1, h1) = handleSrcE n h s
      in if goesOn chk out
         then (let (vs, h2) = visitsE n chk h1 ss in ((out, s1) # vs, h2))
         else ([(out, s1)], h1))"

text \<open>
  How a run over an initialised pending queue ends, given the record of its visits: with
  the outcome of the last visit when that one did not let the run go on, and with the panic
  of \<^verbatim>\<open>popSrc\<close> on the emptied queue when every visit did.
\<close>

definition verdict :: "(error option \<Rightarrow> bool) \<Rightarrow> (error option outcome \<times> 's Source) list
                        \<Rightarrow> error option outcome" where
  "verdict chk vs =
     (if vs = [] then Panicked
      else (case fst (last vs) of
              Returned err \<Rightarrow> if goesOn chk (Returned err) then Panicked else Returned err
            | Panicked \<Rightarrow> Panicked
            | OutOfFuel \<Rightarrow> OutOfFuel))"

section \<open>Example sources and handlers\<close>

text \<open>
  A source that replays a fixed script of \<^verbatim>\<open>Next\<close> results and reports nil with
  end-of-stream once the script is used up.
\<close>

type_synonym script = "(val \<times> error option) list"

definition replay :: "nat \<Rightarrow> script \<Rightarrow> script Source" where
  "replay i script =
     \<lparr>ref = i, self = script,
      Next = (\<lambda>st. case st of [] \<Rightarrow> ((VNil, Some EOF), []) | x # xs \<Rightarrow> (x, xs))\<rparr>"

text \<open>
  Handlers of the error-returning variant: one that passes every item on with a nil error,
  one that does so on its first call and fails with a hard error from the second call on,
  and one that passes every item on with the end-of-stream error.
\<close>

definition passE :: "nat HandlerE" where
  "passE = \<lparr>hselfE = 0, HandleE = (\<lambda>k d. ((d, None), Suc k))\<rparr>"

definition failSecond :: "nat HandlerE" where
  "failSecond =
     \<lparr>hselfE = 0,
      HandleE = (\<lambda>k d. ((d, if k = 0 then None else Some (Other ''handler failed'')), Suc k))\<rparr>"

definition stopE :: "nat HandlerE" where
  "stopE = \<lparr>hselfE = 0, HandleE = (\<lambda>k d. ((d, Some EOF), Suc k))\<rparr>"

text \<open>
  A handler of \<^verbatim>\<open>handlers.go\<close> that passes every item on, keeps the items it has been
  handed, and reports their number as its result.
\<close>

definition logger :: "string \<Rightarrow> val list Handler" where
  "logger name =
     \<lparr>hself = [], ID = name, Handle = (\<lambda>seen d. (d, seen @ [d])),
      Result = (\<lambda>seen. VInt (int (length seen)))\<rparr>"



section \<open>The multi-file scenario\<close>

lemmas file_defs = MultiFileSrc_Next_def FileSource_Next_def ReadString_def Close_def

text \<open>
  C2, as stated, fails: the first three \<^verbatim>\<open>Next\<close> calls on the multi-file source over
  \<^verbatim>\<open>"x\n"\<close> and \<^verbatim>\<open>"y\nz"\<close> do not yield \<^verbatim>\<open>"x\n"\<close>, \<^verbatim>\<open>"y\n"\<close>, \<^verbatim>\<open>"z"\<close>. The second call
  reads the end of the first file and yields the empty string with no error.
\<close>

theorem C2_multi_file_counterexample:
  "fst (nexts 3 twoFiles) = [(VStr ''x\<newline>'', None), (VStr [], None), (VStr ''y\<newline>'', None)]
   \<and> fst (nexts 3 twoFiles) \<noteq> [(VStr ''x\<newline>'', None), (VStr ''y\<newline>'', None), (VStr ''z'', Some EOF)]"
  by (simp add: eval_nat_numeral twoFiles_def file_defs)

text \<open>
  C2, amended: successive \<^verbatim>\<open>Next\<close> calls on that source yield exactly \<^verbatim>\<open>"x\n"\<close>, the empty
  string, \<^verbatim>\<open>"y\n"\<close> and \<^verbatim>\<open>"z"\<close> in that order, the last paired with the end-of-stream error
  and the earlier ones with no error; every later call yields nil with end-of-stream.
\<close>

theorem C2_multi_file_sequence:
  "fst (nexts 4 twoFiles) =
     [(VStr ''x\<newline>'', None), (VStr [], None), (VStr ''y\<newline>'', None), (VStr ''z'', Some EOF)]
   \<and> MultiFileSrc_Next (snd (nexts 4 twoFiles)) = ((VNil, Some EOF), snd (nexts 4 twoFiles))"
  by (simp add: eval_nat_numeral twoFiles_def file_defs)

section \<open>Facts about the loops of the error-returning pipeline\<close>

lemma popSrcE_nil: "todoSrcE h = None \<Longrightarrow> popSrcE h = (Returned None, h)"
  by (simp add: popSrcE_def)

lemma popSrcE_nilList: "todoSrcE h = Some (SafeList None) \<Longrightarrow> popSrcE h = (Panicked, h)"
  by (simp add: popSrcE_def Front_def)

lemma popSrcE_empty: "todoSrcE h = Some (SafeList (Some [])) \<Longrightarrow> popSrcE h = (Panicked, h)"
  by (simp add: popSrcE_def Front_def Remove_def)

lemma popSrcE_cons:
  "todoSrcE h = Some (SafeList (Some (s # ss))) \<Longrightarrow>
   popSrcE h = (Returned (Some s), h\<lparr>todoSrcE := Some (SafeList (Some ss))\<rparr>)"
  by (simp add: popSrcE_def Front_def Remove_def)

lemma handleSrcE_todo: "handleSrcE n h s = (out, s1, h1) \<Longrightarrow> todoSrcE h1 = todoSrcE h"
  by (auto simp: handleSrcE_def split: option.splits prod.splits)

lemma srcDoneE_todo: "srcDoneE h s = (out, h1) \<Longrightarrow> todoSrcE h1 = todoSrcE h"
  by (auto simp: srcDoneE_def PushBack_def Let_def split: option.splits outcome.splits)

lemma drainE_nil: "todoSrcE h = None \<Longrightarrow> drainE n h = (Returned None, h)"
  by (subst drainE.simps) (simp add: popSrcE_nil)

lemma drainE_nilList: "todoSrcE h = Some (SafeList None) \<Longrightarrow> drainE n h = (Panicked, h)"
  by (subst drainE.simps) (simp add: popSrcE_nilList)

lemma drainE_empty: "todoSrcE h = Some (SafeList (Some [])) \<Longrightarrow> drainE n h = (Panicked, h)"
  by (subst drainE.simps) (simp add: popSrcE_empty)

lemma drainE_cons:
  "todoSrcE h = Some (SafeList (Some (s # ss))) \<Longrightarrow>
   drainE n h =
     (case handleSrcE n (h\<lparr>todoSrcE := Some (SafeList (Some ss))\<rparr>) s of
        (Returned err, s1, h2) \<Rightarrow>
          (case srcDoneE h2 s1 of
             (Returned u, h3) \<Rightarrow>
               (if err \<noteq> None then
                  (case ErrCheck h3 of
                     None \<Rightarrow> (Panicked, h3)
                   | Some f \<Rightarrow> if \<not> f err then (Returned err, h3) else drainE n h3)
                else drainE n h3)
           | (Panicked, h3) \<Rightarrow> (Panicked, h3)
           | (OutOfFuel, h3) \<Rightarrow> (OutOfFuel, h3))
      | (Panicked, s1, h2) \<Rightarrow> (Panicked, h2)
      | (OutOfFuel, s1, h2) \<Rightarrow> (OutOfFuel, h2))"
  by (subst drainE.simps) (simp add: popSrcE_cons)


lemma todoSrcE_induct [consumes 0, case_names nil nilList empty cons]:
  fixes h :: "('s, 't) HandlersE"
  assumes "\<And>h :: ('s, 't) HandlersE. todoSrcE h = None \<Longrightarrow> P h"
    and "\<And>h :: ('s, 't) HandlersE. todoSrcE h = Some (SafeList None) \<Longrightarrow> P h"
    and "\<And>h :: ('s, 't) HandlersE. todoSrcE h = Some (SafeList (Some [])) \<Longrightarrow> P h"
    and "\<And>(h :: ('s, 't) HandlersE) s ss. todoSrcE h = Some (SafeList (Some (s # ss))) \<Longrightarrow>
           (\<And>h3 :: ('s, 't) HandlersE. todoSrcE h3 = Some (SafeList (Some ss)) \<Longrightarrow> P h3) \<Longrightarrow> P h"
  shows "P h"
proof -
  have list: "todoSrcE h = Some (SafeList (Some srcs)) \<Longrightarrow> P h" for srcs and h :: "('s, 't) HandlersE"
  proof (induction srcs arbitrary: h)
    case Nil
    then show ?case by (rule assms(3))
  next
    case (Cons s ss)
    show ?case by (rule assms(4) [OF Cons.prems]) (rule Cons.IH)
  qed
  show ?thesis
  proof (cases "todoSrcE h")
    case None
    then show ?thesis by (rule assms(1))
  next
    case (Some l)
    then show ?thesis
      by (cases l; cases "List l") (auto intro: assms(2) list)
  qed
qed

lemma drainE_never_nil: "todoSrcE h \<noteq> None \<Longrightarrow> fst (drainE n h) \<noteq> Returned None"
proof (induction h rule: todoSrcE_induct)
  case (cons h s ss)
  let ?h1 = "h\<lparr>todoSrcE := Some (SafeList (Some ss))\<rparr>"
  obtain out s1 h2 where hs: "handleSrcE n ?h1 s = (out, s1, h2)"
    by (cases "handleSrcE n ?h1 s") auto
  obtain out2 h3 where sd: "srcDoneE h2 s1 = (out2, h3)"
    by (cases "srcDoneE h2 s1") auto
  have "todoSrcE h3 = Some (SafeList (Some ss))"
    using handleSrcE_todo [OF hs] srcDoneE_todo [OF sd] by simp
  then have ih: "fst (drainE n h3) \<noteq> Returned None" using cons(2) by simp
  show ?case
    using ih by (simp add: drainE_cons [OF cons(1)] hs sd split: outcome.splits option.splits)
qed (simp_all add: drainE_nilList drainE_empty)

lemma handleSrcE_frame:
  "handleSrcE n h s = (out, s1, h1) \<Longrightarrow>
   stateE h1 = stateE h \<and> ErrCheck h1 = ErrCheck h \<and> doneSrcE h1 = doneSrcE h"
  by (auto simp: handleSrcE_def split: option.splits prod.splits)

lemma srcDoneE_frame:
  "srcDoneE h s = (out, h1) \<Longrightarrow>
   stateE h1 = stateE h \<and> ErrCheck h1 = ErrCheck h \<and> handlersE h1 = handlersE h"
  by (auto simp: srcDoneE_def PushBack_def Let_def split: option.splits outcome.splits)

lemma drainE_frame:
  "stateE (snd (drainE n h)) = stateE h \<and> ErrCheck (snd (drainE n h)) = ErrCheck h"
proof (induction h rule: todoSrcE_induct)
  case (cons h s ss)
  let ?h1 = "h\<lparr>todoSrcE := Some (SafeList (Some ss))\<rparr>"
  obtain out s1 h2 where hs: "handleSrcE n ?h1 s = (out, s1, h2)"
    by (cases "handleSrcE n ?h1 s") auto
  obtain out2 h3 where sd: "srcDoneE h2 s1 = (out2, h3)"
    by (cases "srcDoneE h2 s1") auto
  have todo: "todoSrcE h3 = Some (SafeList (Some ss))"
    using handleSrcE_todo [OF hs] srcDoneE_todo [OF sd] by simp
  have fr: "stateE h2 = stateE h" "ErrCheck h2 = ErrCheck h"
           "stateE h3 = stateE h" "ErrCheck h3 = ErrCheck h"
    using handleSrcE_frame [OF hs] srcDoneE_frame [OF sd] by simp_all
  show ?case
    using cons(2) [OF todo] fr
    by (simp add: drainE_cons [OF cons(1)] hs sd split: outcome.splits option.splits)
qed (simp_all add: drainE_nil drainE_nilList drainE_empty)

lemma RunE_state: "stateE (snd (RunE n h)) = StatusRunning"
  by (simp add: RunE_def Let_def drainE_frame)

section \<open>Facts about the loops of the pipeline with a result handler\<close>

lemma popSrc_nil: "todoSrc h = None \<Longrightarrow> popSrc h = (Returned None, h)"
  by (simp add: popSrc_def)

lemma popSrc_nilList: "todoSrc h = Some (SafeList None) \<Longrightarrow> popSrc h = (Panicked, h)"
  by (simp add: popSrc_def Front_def)

lemma popSrc_empty: "todoSrc h = Some (SafeList (Some [])) \<Longrightarrow> popSrc h = (Panicked, h)"
  by (simp add: popSrc_def Front_def Remove_def)

lemma popSrc_cons:
  "todoSrc h = Some (SafeList (Some (s # ss))) \<Longrightarrow>
   popSrc h = (Returned (Some s), h\<lparr>todoSrc := Some (SafeList (Some ss))\<rparr>)"
  by (simp add: popSrc_def Front_def Remove_def)

lemma handleSrc_frame:
  "handleSrc n h s = (out, s1, h1) \<Longrightarrow>
   todoSrc h1 = todoSrc h \<and> state h1 = state h \<and> doneSrc h1 = doneSrc h
   \<and> resultHandler h1 = resultHandler h"
  by (auto simp: handleSrc_def split: option.splits prod.splits)

lemma drain_nil: "todoSrc h = None \<Longrightarrow> drain n h = (Returned (), h)"
  by (subst drain.simps) (simp add: popSrc_nil)

lemma drain_nilList: "todoSrc h = Some (SafeList None) \<Longrightarrow> drain n h = (Panicked, h)"
  by (subst drain.simps) (simp add: popSrc_nilList)

lemma drain_empty: "todoSrc h = Some (SafeList (Some [])) \<Longrightarrow> drain n h = (Panicked, h)"
  by (subst drain.simps) (simp add: popSrc_empty)

lemma drain_cons:
  "todoSrc h = Some (SafeList (Some (s # ss))) \<Longrightarrow>
   drain n h =
     (case handleSrc n (h\<lparr>todoSrc := Some (SafeList (Some ss))\<rparr>) s of
        (Returned u, s1, h2) \<Rightarrow> drain n h2
      | (Panicked, s1, h2) \<Rightarrow> (Panicked, h2)
      | (OutOfFuel, s1, h2) \<Rightarrow> (OutOfFuel, h2))"
  by (subst drain.simps) (simp add: popSrc_cons)

lemma todoSrc_induct [consumes 0, case_names nil nilList empty cons]:
  fixes h :: "('s, 't) Handlers"
  assumes "\<And>h :: ('s, 't) Handlers. todoSrc h = None \<Longrightarrow> P h"
    and "\<And>h :: ('s, 't) Handlers. todoSrc h = Some (SafeList None) \<Longrightarrow> P h"
    and "\<And>h :: ('s, 't) Handlers. todoSrc h = Some (SafeList (Some [])) \<Longrightarrow> P h"
    and "\<And>(h :: ('s, 't) Handlers) s ss. todoSrc h = Some (SafeList (Some (s # ss))) \<Longrightarrow>
           (\<And>h2 :: ('s, 't) Handlers. todoSrc h2 = Some (SafeList (Some ss)) \<Longrightarrow> P h2) \<Longrightarrow> P h"
  shows "P h"
proof -
  have list: "todoSrc h = Some (SafeList (Some srcs)) \<Longrightarrow> P h" for srcs and h :: "('s, 't) Handlers"
  proof (induction srcs arbitrary: h)
    case Nil
    then show ?case by (rule assms(3))
  next
    case (Cons s ss)
    show ?case by (rule assms(4) [OF Cons.prems]) (rule Cons.IH)
  qed
  show ?thesis
  proof (cases "todoSrc h")
    case None
    then show ?thesis by (rule assms(1))
  next
    case (Some l)
    then show ?thesis
      by (cases l; cases "List l") (auto intro: assms(2) list)
  qed
qed

lemma drain_frame:
  "state (snd (drain n h)) = state h \<and> doneSrc (snd (drain n h)) = doneSrc h
   \<and> resultHandler (snd (drain n h)) = resultHandler h"
proof (induction h rule: todoSrc_induct)
  case (cons h s ss)
  let ?h1 = "h\<lparr>todoSrc := Some (SafeList (Some ss))\<rparr>"
  obtain out s1 h2 where hs: "handleSrc n ?h1 s = (out, s1, h2)"
    by (cases "handleSrc n ?h1 s") auto
  have fr: "todoSrc h2 = Some (SafeList (Some ss))" "state h2 = state h"
           "doneSrc h2 = doneSrc h" "resultHandler h2 = resultHandler h"
    using handleSrc_frame [OF hs] by simp_all
  show ?case
    using cons(2) [OF fr(1)] fr
    by (simp add: drain_cons [OF cons(1)] hs split: outcome.splits)
qed (simp_all add: drain_nil drain_nilList drain_empty)

lemma drain_returns: "fst (drain n h) = Returned u \<Longrightarrow> todoSrc h = None"
proof (induction h rule: todoSrc_induct)
  case (cons h s ss)
  let ?h1 = "h\<lparr>todoSrc := Some (SafeList (Some ss))\<rparr>"
  obtain out s1 h2 where hs: "handleSrc n ?h1 s = (out, s1, h2)"
    by (cases "handleSrc n ?h1 s") auto
  have todo: "todoSrc h2 = Some (SafeList (Some ss))"
    using handleSrc_frame [OF hs] by simp
  have "fst (drain n h2) \<noteq> Returned u" using cons(2) [OF todo] todo by auto
  then show ?case
    using cons(3) by (simp add: drain_cons [OF cons(1)] hs split: outcome.splits)
qed (simp_all add: drain_nilList drain_empty)

lemma Run_state: "state (snd (Run n h)) = StatusRunning"
proof (cases "state h = StatusRunning")
  case True
  then show ?thesis by (simp add: Run_def)
next
  case False
  let ?h0 = "h\<lparr>state := StatusRunning\<rparr>"
  obtain out h1 where d: "drain n ?h0 = (out, h1)"
    by (cases "drain n ?h0") auto
  have "state h1 = StatusRunning"
    using drain_frame [of n ?h0] d by simp
  then show ?thesis
    using False
    by (simp add: Run_def d split: outcome.splits option.splits prod.splits)
qed

section \<open>Running out of sources\<close>

text \<open>
  C1 (the code departs from the claim): a pipeline on which one source was registered does
  not terminate normally once the pending queue is empty. In the error-returning variant
  the source is popped and marked done, and the next \<^verbatim>\<open>popSrc\<close> finds the initialised, empty
  list: \<^verbatim>\<open>Front\<close> returns nil and \<^verbatim>\<open>Remove(nil)\<close> panics. In \<^verbatim>\<open>handlers.go\<close> the
  registration itself panics, because \<^verbatim>\<open>new(safeList)\<close> leaves the embedded list nil; on a
  pending queue that does hold one source, its \<^verbatim>\<open>Run\<close> panics in the same way. In both
  variants, once \<^verbatim>\<open>AddSrc\<close> has been called on a pipeline, whatever its state, the loop of
  \<^verbatim>\<open>Run\<close> never ends with the no-more-sources signal.
\<close>

theorem C1_Run_panics_when_queue_drains:
  "AddSrcE zeroE s = (Returned (), zeroE\<lparr>todoSrcE := Some (SafeList (Some [s]))\<rparr>)
   \<and> RunE n (zeroE\<lparr>todoSrcE := Some (SafeList (Some [s]))\<rparr>) =
       (Panicked, \<lparr>todoSrcE = Some (SafeList (Some [])), doneSrcE = Some (SafeList (Some [s])),
                   handlersE = None, stateE = StatusRunning, ErrCheck = Some defaultErrFunc\<rparr>)
   \<and> fst (drainE n (snd (AddSrcE hE s))) \<noteq> Returned None
   \<and> fst (AddSrc zero s) = Panicked
   \<and> fst (Run n (zero\<lparr>todoSrc := Some (SafeList (Some [s]))\<rparr>)) = Panicked
   \<and> fst (drain n (snd (AddSrc h s))) \<noteq> Returned ()"
proof -
  have a: "AddSrcE zeroE s = (Returned (), zeroE\<lparr>todoSrcE := Some (SafeList (Some [s]))\<rparr>)"
    by (simp add: AddSrcE_def zeroE_def newSafeList_def PushBack_def)
  have b: "RunE n (zeroE\<lparr>todoSrcE := Some (SafeList (Some [s]))\<rparr>) =
       (Panicked, \<lparr>todoSrcE = Some (SafeList (Some [])), doneSrcE = Some (SafeList (Some [s])),
                   handlersE = None, stateE = StatusRunning, ErrCheck = Some defaultErrFunc\<rparr>)"
    by (simp add: zeroE_def RunE_def drainE_cons handleSrcE_def srcDoneE_def newSafeList_def
                  PushBack_def drainE_empty)
  have "todoSrcE (snd (AddSrcE hE s)) \<noteq> None"
    by (simp add: AddSrcE_def Let_def split: outcome.splits)
  then have c: "fst (drainE n (snd (AddSrcE hE s))) \<noteq> Returned None"
    by (rule drainE_never_nil)
  have d: "fst (AddSrc zero s) = Panicked"
    by (simp add: AddSrc_def zero_def new_safeList_def PushBack_def)
  have e: "fst (Run n (zero\<lparr>todoSrc := Some (SafeList (Some [s]))\<rparr>)) = Panicked"
    by (simp add: zero_def Run_def drain_cons handleSrc_def drain_empty)
  have "todoSrc (snd (AddSrc h s)) \<noteq> None"
    by (simp add: AddSrc_def Let_def split: outcome.splits)
  then have f: "fst (drain n (snd (AddSrc h s))) \<noteq> Returned ()"
    using drain_returns [of n "snd (AddSrc h s)" "()"] by auto
  show ?thesis using a b c d e f by simp
qed

section \<open>Running again\<close>

lemma Run_doneSrc: "doneSrc (snd (Run n h)) = doneSrc h"
proof (cases "state h = StatusRunning")
  case True
  then show ?thesis by (simp add: Run_def)
next
  case False
  let ?h0 = "h\<lparr>state := StatusRunning\<rparr>"
  obtain out h1 where d: "drain n ?h0 = (out, h1)"
    by (cases "drain n ?h0") auto
  have "doneSrc h1 = doneSrc h"
    using drain_frame [of n ?h0] d by simp
  then show ?thesis
    using False
    by (simp add: Run_def d split: outcome.splits option.splits prod.splits)
qed

text \<open>
  C4 (the code departs from the claim): no path of \<^verbatim>\<open>Run\<close> ever leaves the state
  \<^verbatim>\<open>StatusRunning\<close>. A run of the empty pipeline returns normally, and after any run, of any
  pipeline, every further \<^verbatim>\<open>Run\<close> is turned away: with the error "handlers already running"
  in the error-returning variant, silently in \<^verbatim>\<open>handlers.go\<close>.
\<close>

theorem C4_second_Run_is_rejected:
  "RunE n zeroE = (Returned None, zeroE\<lparr>stateE := StatusRunning, ErrCheck := Some defaultErrFunc\<rparr>)
   \<and> RunE m (snd (RunE n hE)) = (Returned (Some ErrRunning), snd (RunE n hE))
   \<and> Run n zero = (Returned (), zero\<lparr>state := StatusRunning\<rparr>)
   \<and> Run m (snd (Run n h)) = (Returned (), snd (Run n h))"
proof -
  have a: "RunE n zeroE = (Returned None, zeroE\<lparr>stateE := StatusRunning, ErrCheck := Some defaultErrFunc\<rparr>)"
    by (simp add: RunE_def zeroE_def drainE_nil)
  have b: "RunE m (snd (RunE n hE)) = (Returned (Some ErrRunning), snd (RunE n hE))"
    using RunE_state [of n hE] by (simp add: RunE_def [of m])
  have c: "Run n zero = (Returned (), zero\<lparr>state := StatusRunning\<rparr>)"
    by (simp add: Run_def zero_def drain_nil)
  have d: "Run m (snd (Run n h)) = (Returned (), snd (Run n h))"
    using Run_state [of n h] by (simp add: Run_def [of m])
  show ?thesis using a b c d by simp
qed

section \<open>The done queue\<close>

lemma loopE_pass_state:
  "loopE n (Some [passE\<lparr>hselfE := k\<rparr>]) (replay i []) =
     (OutOfFuel, replay i [], Some [passE\<lparr>hselfE := k + n\<rparr>])"
proof (induction n arbitrary: k)
  case 0
  show ?case by simp
next
  case (Suc n)
  have nx: "callNext (replay i []) = ((VNil, Some EOF), replay i [])"
    by (simp add: callNext_def replay_def)
  have ch: "chainE [passE\<lparr>hselfE := k\<rparr>] (VNil, Some EOF) = ((VNil, None), [passE\<lparr>hselfE := Suc k\<rparr>])"
    by (simp add: callHandleE_def passE_def)
  show ?case using Suc.IH [of "Suc k"] by (simp add: nx ch del: chainE.simps)
qed

text \<open>
  C5 (the code departs from the claim): a source that is popped is not always appended to
  the done queue. In the error-returning variant, register a handler that reports no error
  and a source that is at its end: \<^verbatim>\<open>Run\<close> pops the source, and \<^verbatim>\<open>handleSrc\<close> never returns,
  because the end-of-stream error of \<^verbatim>\<open>Next\<close> is overwritten by the handler's nil error (the
  defect of C3). For every bound on the number of rounds the run is still inside
  \<^verbatim>\<open>handleSrc\<close>, with the pending queue empty and the done queue still nil: the source is in
  neither queue. (\<^verbatim>\<open>Run\<close> of \<^verbatim>\<open>handlers.go\<close> has no \<^verbatim>\<open>srcDone\<close> call at all and never changes
  the done queue, but no source can be registered there, so none is ever popped.)
\<close>

theorem C5_popped_source_never_marked_done:
  "AddHandlerE zeroE passE = (Returned (), zeroE\<lparr>handlersE := Some (SafeList (Some [passE]))\<rparr>)
   \<and> AddSrcE (zeroE\<lparr>handlersE := Some (SafeList (Some [passE]))\<rparr>) (replay 1 []) =
       (Returned (), zeroE\<lparr>handlersE := Some (SafeList (Some [passE])),
                            todoSrcE := Some (SafeList (Some [replay 1 []]))\<rparr>)
   \<and> RunE n (zeroE\<lparr>handlersE := Some (SafeList (Some [passE])),
                    todoSrcE := Some (SafeList (Some [replay 1 []]))\<rparr>) =
       (OutOfFuel,
        \<lparr>todoSrcE = Some (SafeList (Some [])), doneSrcE = None,
         handlersE = Some (SafeList (Some [passE\<lparr>hselfE := n\<rparr>])),
         stateE = StatusRunning, ErrCheck = Some defaultErrFunc\<rparr>)"
proof -
  have a: "AddHandlerE zeroE passE = (Returned (), zeroE\<lparr>handlersE := Some (SafeList (Some [passE]))\<rparr>)"
    by (simp add: AddHandlerE_def zeroE_def newSafeList_def PushBack_def)
  have b: "AddSrcE (zeroE\<lparr>handlersE := Some (SafeList (Some [passE]))\<rparr>) (replay 1 []) =
       (Returned (), zeroE\<lparr>handlersE := Some (SafeList (Some [passE])),
                            todoSrcE := Some (SafeList (Some [replay 1 []]))\<rparr>)"
    by (simp add: AddSrcE_def zeroE_def newSafeList_def PushBack_def)
  have p: "passE = passE\<lparr>hselfE := 0\<rparr>" by (simp add: passE_def)
  have l: "loopE n (Some [passE]) (replay (Suc 0) []) =
             (OutOfFuel, replay (Suc 0) [], Some [passE\<lparr>hselfE := n\<rparr>])"
    using loopE_pass_state [of n 0 "Suc 0"] p by simp
  have c: "RunE n (zeroE\<lparr>handlersE := Some (SafeList (Some [passE])),
                    todoSrcE := Some (SafeList (Some [replay 1 []]))\<rparr>) =
       (OutOfFuel,
        \<lparr>todoSrcE = Some (SafeList (Some [])), doneSrcE = None,
         handlersE = Some (SafeList (Some [passE\<lparr>hselfE := n\<rparr>])),
         stateE = StatusRunning, ErrCheck = Some defaultErrFunc\<rparr>)"
    by (simp add: zeroE_def RunE_def drainE_cons handleSrcE_def l)
  show ?thesis using a b c by simp
qed

section \<open>The handler chain\<close>



lemma length_fed: "length (fed hdls d) = length hdls"
  by (induction hdls arbitrary: d) simp_all

lemma length_fedE: "length (fedE hdls d) = length hdls"
  by (induction hdls arbitrary: d) simp_all







section \<open>Errors in the error-returning pipeline\<close>

lemma loopE_pass_diverges:
  "fst (loopE n (Some [passE\<lparr>hselfE := k\<rparr>]) (replay i [])) = OutOfFuel"
proof (induction n arbitrary: k)
  case 0
  show ?case by simp
next
  case (Suc n)
  have nx: "callNext (replay i []) = ((VNil, Some EOF), replay i [])"
    by (simp add: callNext_def replay_def)
  have ch: "chainE [passE\<lparr>hselfE := k\<rparr>] (VNil, Some EOF) = ((VNil, None), [passE\<lparr>hselfE := Suc k\<rparr>])"
    by (simp add: callHandleE_def passE_def)
  show ?case using Suc.IH [of "Suc k"] by (simp add: nx ch del: chainE.simps)
qed

lemma RunE_stuck_at_end_of_stream: "fst (RunE n (zeroE\<lparr>todoSrcE := Some (SafeList (Some [replay 1 [], replay 2 [(VStr ''c'', None)]])),
                       handlersE := Some (SafeList (Some [passE]))\<rparr>)) = OutOfFuel"
proof -
  have "passE = passE\<lparr>hselfE := 0\<rparr>" by (simp add: passE_def)
  then have "fst (loopE n (Some [passE]) (replay 1 [])) = OutOfFuel"
    using loopE_pass_diverges [of n 0 1] by simp
  then obtain s1 l1 where "loopE n (Some [passE]) (replay 1 []) = (OutOfFuel, s1, l1)"
    by (cases "loopE n (Some [passE]) (replay 1 [])") auto
  then show ?thesis
    by (simp add: zeroE_def RunE_def drainE_cons handleSrcE_def)
qed

lemma RunE_drops_read_error: "RunE 5 (zeroE\<lparr>todoSrcE := Some (SafeList (Some
                  [replay 1 [(VStr ''a'', Some (Other ''read failed'')), (VStr ''b'', None)],
                   replay 2 [(VStr ''c'', None)]])),
                handlersE := Some (SafeList (Some [failSecond]))\<rparr>) =
   (Returned (Some (Other ''handler failed'')),
    \<lparr>todoSrcE = Some (SafeList (Some [replay 2 [(VStr ''c'', None)]])),
     doneSrcE = Some (SafeList (Some [replay 1 []])),
     handlersE = Some (SafeList (Some [failSecond\<lparr>hselfE := 2\<rparr>])),
     stateE = StatusRunning, ErrCheck = Some defaultErrFunc\<rparr>)"
  by (simp add: zeroE_def RunE_def drainE_cons handleSrcE_def srcDoneE_def newSafeList_def
                PushBack_def eval_nat_numeral callNext_def replay_def failSecond_def
                callHandleE_def defaultErrFunc_def)

text \<open>
  C3 (the code departs from the claim): the inner loop of \<^verbatim>\<open>handleSrc\<close> assigns every
  handler's error to the variable that holds the error of \<^verbatim>\<open>Next\<close>, and the test comes
  after the loop, so only the last handler's error is ever looked at. A hard error of a
  source read does not abort the run: the item is handled and the source is read again,
  until a handler fails. An end-of-stream error of a source does not make the pipeline move
  on either: with a handler that reports no error, the run stays on the exhausted source
  for any number of rounds.
\<close>

theorem C3_source_errors_are_overwritten:
  "RunE 5 (zeroE\<lparr>todoSrcE := Some (SafeList (Some
                  [replay 1 [(VStr ''a'', Some (Other ''read failed'')), (VStr ''b'', None)],
                   replay 2 [(VStr ''c'', None)]])),
                handlersE := Some (SafeList (Some [failSecond]))\<rparr>) =
     (Returned (Some (Other ''handler failed'')),
      \<lparr>todoSrcE = Some (SafeList (Some [replay 2 [(VStr ''c'', None)]])),
       doneSrcE = Some (SafeList (Some [replay 1 []])),
       handlersE = Some (SafeList (Some [failSecond\<lparr>hselfE := 2\<rparr>])),
       stateE = StatusRunning, ErrCheck = Some defaultErrFunc\<rparr>)
   \<and> fst (RunE n (zeroE\<lparr>todoSrcE := Some (SafeList (Some
                        [replay 1 [], replay 2 [(VStr ''c'', None)]])),
                      handlersE := Some (SafeList (Some [passE]))\<rparr>)) = OutOfFuel"
  using RunE_drops_read_error RunE_stuck_at_end_of_stream [of n] by simp

section \<open>Calling Run while running\<close>

text \<open>
  C9: a \<^verbatim>\<open>Run\<close> called in the state \<^verbatim>\<open>StatusRunning\<close> returns at once and leaves the whole
  pipeline, queues included, as it was: \<^verbatim>\<open>handlers.go\<close> returns nothing, the error-returning
  variant returns the error "handlers already running".
\<close>

theorem C9_Run_while_running:
  "(state h = StatusRunning \<longrightarrow> Run n h = (Returned (), h))
   \<and> (stateE hE = StatusRunning \<longrightarrow> RunE n hE = (Returned (Some ErrRunning), hE))"
  by (simp add: Run_def RunE_def)

theorem C9_Run_while_running_witness:
  "state (zero\<lparr>state := StatusRunning,
               todoSrc := Some (SafeList (Some [replay 1 [(VStr ''a'', None)]])),
               handlers := Some (SafeList (Some [logger ''c'']))\<rparr>) = StatusRunning
   \<and> Run 3 (zero\<lparr>state := StatusRunning,
               todoSrc := Some (SafeList (Some [replay 1 [(VStr ''a'', None)]])),
               handlers := Some (SafeList (Some [logger ''c'']))\<rparr>) =
       (Returned (),
        zero\<lparr>state := StatusRunning,
             todoSrc := Some (SafeList (Some [replay 1 [(VStr ''a'', None)]])),
             handlers := Some (SafeList (Some [logger ''c'']))\<rparr>)
   \<and> stateE (zeroE\<lparr>stateE := StatusRunning,
                 todoSrcE := Some (SafeList (Some [replay 1 [(VStr ''a'', None)]])),
                 handlersE := Some (SafeList (Some [passE]))\<rparr>) = StatusRunning
   \<and> RunE 3 (zeroE\<lparr>stateE := StatusRunning,
                 todoSrcE := Some (SafeList (Some [replay 1 [(VStr ''a'', None)]])),
                 handlersE := Some (SafeList (Some [passE]))\<rparr>) =
       (Returned (Some ErrRunning),
        zeroE\<lparr>stateE := StatusRunning,
              todoSrcE := Some (SafeList (Some [replay 1 [(VStr ''a'', None)]])),
              handlersE := Some (SafeList (Some [passE]))\<rparr>)"
  using C9_Run_while_running
          [of "zero\<lparr>state := StatusRunning,
                    todoSrc := Some (SafeList (Some [replay 1 [(VStr ''a'', None)]])),
                    handlers := Some (SafeList (Some [logger ''c'']))\<rparr>" 3
              "zeroE\<lparr>stateE := StatusRunning,
                     todoSrcE := Some (SafeList (Some [replay 1 [(VStr ''a'', None)]])),
                     handlersE := Some (SafeList (Some [passE]))\<rparr>"]
  by simp

section \<open>A pipeline without handlers\<close>

lemma handleSrcE_no_handlers: "handlersE h = None \<Longrightarrow> handleSrcE n h s = (Returned None, s, h)"
  by (simp add: handleSrcE_def)

lemma handleSrc_no_handlers: "handlers h = None \<Longrightarrow> handleSrc n h s = (Returned (), s, h)"
  by (simp add: handleSrc_def)

lemma srcDoneE_ok:
  "doneSrcE h \<noteq> Some (SafeList None) \<Longrightarrow>
   srcDoneE h s = (Returned (), h\<lparr>doneSrcE := Some (SafeList (Some (doneE h @ [s])))\<rparr>)"
  by (cases "doneSrcE h")
     (auto simp: srcDoneE_def doneE_def newSafeList_def PushBack_def
           split: safeList.splits option.splits)

lemma drainE_no_handlers:
  "handlersE h = None \<Longrightarrow> doneSrcE h \<noteq> Some (SafeList None) \<Longrightarrow>
   fst (drainE n h) = (if todoSrcE h = None then Returned None else Panicked)
   \<and> pendingE (snd (drainE n h)) = []
   \<and> doneE (snd (drainE n h)) = doneE h @ pendingE h
   \<and> handlersE (snd (drainE n h)) = None"
proof (induction h rule: todoSrcE_induct)
  case (cons h s ss)
  let ?h1 = "h\<lparr>todoSrcE := Some (SafeList (Some ss))\<rparr>"
  let ?h3 = "?h1\<lparr>doneSrcE := Some (SafeList (Some (doneE ?h1 @ [s])))\<rparr>"
  have hs: "handleSrcE n ?h1 s = (Returned None, s, ?h1)"
    using cons.prems by (simp add: handleSrcE_no_handlers)
  have sd: "srcDoneE ?h1 s = (Returned (), ?h3)"
    using cons.prems by (simp add: srcDoneE_ok)
  have step: "drainE n h = drainE n ?h3"
    by (simp add: drainE_cons [OF cons(1)] hs sd)
  have ih: "fst (drainE n ?h3) = Panicked \<and> pendingE (snd (drainE n ?h3)) = []
     \<and> doneE (snd (drainE n ?h3)) = doneE ?h3 @ pendingE ?h3
     \<and> handlersE (snd (drainE n ?h3)) = None"
    using cons(2) [of ?h3] cons.prems by simp
  show ?case
    using ih cons(1) by (simp add: step doneE_def pendingE_def)
qed (simp_all add: drainE_nil drainE_nilList drainE_empty pendingE_def)

lemma drain_no_handlers:
  "handlers h = None \<Longrightarrow>
   fst (drain n h) = (if todoSrc h = None then Returned () else Panicked)
   \<and> pending (snd (drain n h)) = []
   \<and> handlers (snd (drain n h)) = None"
proof (induction h rule: todoSrc_induct)
  case (cons h s ss)
  let ?h1 = "h\<lparr>todoSrc := Some (SafeList (Some ss))\<rparr>"
  have hs: "handleSrc n ?h1 s = (Returned (), s, ?h1)"
    using cons.prems by (simp add: handleSrc_no_handlers)
  have step: "drain n h = drain n ?h1"
    by (simp add: drain_cons [OF cons(1)] hs)
  show ?case
    using cons(2) [of ?h1] cons.prems cons(1) by (simp add: step)
qed (simp_all add: drain_nil drain_nilList drain_empty pending_def)

text \<open>
  C10: when no handler was ever registered (the chain is nil), \<^verbatim>\<open>handleSrc\<close> returns at once
  with the source untouched, so \<^verbatim>\<open>Run\<close> pops every pending source and never calls \<^verbatim>\<open>Next\<close>:
  in the error-returning variant the popped sources arrive in the done queue exactly as they
  were registered; in \<^verbatim>\<open>handlers.go\<close> the result handler is left as it was, set or not.
  The run returns only when the pending queue was never initialised, and panics otherwise.
\<close>

theorem C10_no_handler_registered:
  "(handlersE hE = None \<longrightarrow> handleSrcE n hE sE = (Returned None, sE, hE))
   \<and> (handlersE hE = None \<and> stateE hE \<noteq> StatusRunning \<and> doneSrcE hE \<noteq> Some (SafeList None) \<longrightarrow>
      fst (RunE n hE) = (if todoSrcE hE = None then Returned None else Panicked)
      \<and> pendingE (snd (RunE n hE)) = []
      \<and> doneE (snd (RunE n hE)) = doneE hE @ pendingE hE)
   \<and> (handlers h = None \<longrightarrow> handleSrc n h s = (Returned (), s, h))
   \<and> (handlers h = None \<and> state h \<noteq> StatusRunning \<longrightarrow>
      fst (Run n h) = (if todoSrc h = None then Returned () else Panicked)
      \<and> pending (snd (Run n h)) = []
      \<and> handlers (snd (Run n h)) = None
      \<and> resultHandler (snd (Run n h)) = resultHandler h)"
proof -
  have E: "fst (RunE n hE) = (if todoSrcE hE = None then Returned None else Panicked)
      \<and> pendingE (snd (RunE n hE)) = []
      \<and> doneE (snd (RunE n hE)) = doneE hE @ pendingE hE"
    if "handlersE hE = None" "stateE hE \<noteq> StatusRunning" "doneSrcE hE \<noteq> Some (SafeList None)"
  proof -
    let ?h2 = "hE\<lparr>stateE := StatusRunning,
                   ErrCheck := (if ErrCheck hE = None then Some defaultErrFunc else ErrCheck hE)\<rparr>"
    have run: "RunE n hE = drainE n ?h2"
      using that(2) by (simp add: RunE_def Let_def)
    show ?thesis
      using drainE_no_handlers [of ?h2 n] that by (simp add: run doneE_def pendingE_def)
  qed
  have A: "fst (Run n h) = (if todoSrc h = None then Returned () else Panicked)
      \<and> pending (snd (Run n h)) = []
      \<and> handlers (snd (Run n h)) = None
      \<and> resultHandler (snd (Run n h)) = resultHandler h"
    if "handlers h = None" "state h \<noteq> StatusRunning"
  proof -
    let ?h0 = "h\<lparr>state := StatusRunning\<rparr>"
    obtain out h1 where d: "drain n ?h0 = (out, h1)"
      by (cases "drain n ?h0") auto
    have f: "out = (if todoSrc h = None then Returned () else Panicked)"
            "pending h1 = []" "handlers h1 = None"
      using drain_no_handlers [of ?h0 n] that d by simp_all
    have g: "resultHandler h1 = resultHandler h"
      using drain_frame [of n ?h0] d by simp
    have "Run n h = (out, h1)"
      using that(2) f by (simp add: Run_def d split: option.splits)
    then show ?thesis
      using f g by simp
  qed
  show ?thesis
    using E A handleSrcE_no_handlers [of hE n sE] handleSrc_no_handlers [of h n s] by blast
qed

theorem C10_no_handler_registered_witness:
  "handlersE (zeroE\<lparr>todoSrcE := Some (SafeList (Some [replay 1 [(VStr ''a'', None)], replay 2 []]))\<rparr>
               :: (script, nat) HandlersE) = None
   \<and> stateE (zeroE\<lparr>todoSrcE := Some (SafeList (Some [replay 1 [(VStr ''a'', None)], replay 2 []]))\<rparr>
               :: (script, nat) HandlersE) \<noteq> StatusRunning
   \<and> doneSrcE (zeroE\<lparr>todoSrcE := Some (SafeList (Some [replay 1 [(VStr ''a'', None)], replay 2 []]))\<rparr>
               :: (script, nat) HandlersE) \<noteq> Some (SafeList None)
   \<and> RunE 0 (zeroE\<lparr>todoSrcE := Some (SafeList (Some [replay 1 [(VStr ''a'', None)], replay 2 []]))\<rparr>
               :: (script, nat) HandlersE) =
       (Panicked,
        \<lparr>todoSrcE = Some (SafeList (Some [])),
         doneSrcE = Some (SafeList (Some [replay 1 [(VStr ''a'', None)], replay 2 []])),
         handlersE = None, stateE = StatusRunning, ErrCheck = Some defaultErrFunc\<rparr>)
   \<and> handlers ((SetResultHandler zero (logger ''r''))
                 \<lparr>todoSrc := Some (SafeList (Some [replay 1 [(VStr ''a'', None)]]))\<rparr>) = None
   \<and> state ((SetResultHandler zero (logger ''r''))
                 \<lparr>todoSrc := Some (SafeList (Some [replay 1 [(VStr ''a'', None)]]))\<rparr>) \<noteq> StatusRunning
   \<and> Run 0 ((SetResultHandler zero (logger ''r''))
                 \<lparr>todoSrc := Some (SafeList (Some [replay 1 [(VStr ''a'', None)]]))\<rparr>) =
       (Panicked,
        \<lparr>todoSrc = Some (SafeList (Some [])), doneSrc = None, handlers = None,
         resultHandler = Some (logger ''r''), state = StatusRunning\<rparr>)"
proof -
  let ?hE = "zeroE\<lparr>todoSrcE := Some (SafeList (Some [replay 1 [(VStr ''a'', None)], replay 2 []]))\<rparr>
               :: (script, nat) HandlersE"
  let ?hA = "(SetResultHandler zero (logger ''r''))
                 \<lparr>todoSrc := Some (SafeList (Some [replay 1 [(VStr ''a'', None)]]))\<rparr>"
  have hyp: "handlersE ?hE = None" "stateE ?hE \<noteq> StatusRunning"
    "doneSrcE ?hE \<noteq> Some (SafeList None)"
    "handlers ?hA = None" "state ?hA \<noteq> StatusRunning"
    by (simp_all add: zeroE_def zero_def SetResultHandler_def)
  have concl: "fst (RunE 0 ?hE) = Panicked" "pendingE (snd (RunE 0 ?hE)) = []"
    "doneE (snd (RunE 0 ?hE)) = doneE ?hE @ pendingE ?hE"
    "fst (Run 0 ?hA) = Panicked" "resultHandler (snd (Run 0 ?hA)) = resultHandler ?hA"
    using C10_no_handler_registered [of ?hE 0 "replay 1 []" ?hA "replay 1 []"] hyp
    by simp_all
  have runE: "RunE 0 ?hE =
       (Panicked,
        \<lparr>todoSrcE = Some (SafeList (Some [])),
         doneSrcE = Some (SafeList (Some [replay 1 [(VStr ''a'', None)], replay 2 []])),
         handlersE = None, stateE = StatusRunning, ErrCheck = Some defaultErrFunc\<rparr>)"
    by (simp add: zeroE_def RunE_def drainE_cons drainE_empty handleSrcE_def srcDoneE_def
                  newSafeList_def PushBack_def)
  have run: "Run 0 ?hA =
       (Panicked,
        \<lparr>todoSrc = Some (SafeList (Some [])), doneSrc = None, handlers = None,
         resultHandler = Some (logger ''r''), state = StatusRunning\<rparr>)"
    by (simp add: zero_def SetResultHandler_def Run_def drain_cons drain_empty handleSrc_def)
  show ?thesis
    using concl by (intro conjI) (rule hyp runE run)+
qed

section \<open>The result mapping\<close>

lemma collect_other: "k \<notin> ID ` set hdls \<Longrightarrow> collect hdls m k = m k"
  by (induction hdls arbitrary: m) auto

lemma collect_dom: "dom (collect hdls m) = dom m \<union> ID ` set hdls"
  by (induction hdls arbitrary: m) auto

lemma collect_distinct:
  "distinct (map ID hdls) \<Longrightarrow> hdl \<in> set hdls \<Longrightarrow> collect hdls m (ID hdl) = Some (callResult hdl)"
proof (induction hdls arbitrary: m)
  case Nil
  then show ?case by simp
next
  case (Cons x xs)
  show ?case
  proof (cases "hdl = x")
    case True
    have "ID x \<notin> ID ` set xs" using Cons.prems(1) by auto
    then show ?thesis using True by (simp add: collect_other)
  next
    case False
    then show ?thesis using Cons by auto
  qed
qed

text \<open>
  The result step of \<^verbatim>\<open>Run\<close> itself does what is asked of it on a pipeline that has a
  handler chain and whose loop has ended normally.
\<close>

lemma Run_result_step:
  assumes "state h \<noteq> StatusRunning"
    and "todoSrc h = None"
    and "resultHandler h = Some rh"
    and "handlers h = Some (SafeList (Some hdls))"
  shows "Run n h = (Returned (), h\<lparr>state := StatusRunning,
                      resultHandler := Some (snd (callHandle rh (VMap (collect hdls Map.empty))))\<rparr>)
         \<and> dom (collect hdls Map.empty) = ID ` set hdls
         \<and> (distinct (map ID hdls) \<longrightarrow>
              (\<forall>hdl \<in> set hdls. collect hdls Map.empty (ID hdl) = Some (callResult hdl)))"
proof -
  let ?h0 = "h\<lparr>state := StatusRunning\<rparr>"
  have "todoSrc ?h0 = None" using assms(2) by simp
  then have d: "drain n ?h0 = (Returned (), ?h0)" by (rule drain_nil)
  have "Run n h = (Returned (), h\<lparr>state := StatusRunning,
                      resultHandler := Some (snd (callHandle rh (VMap (collect hdls Map.empty))))\<rparr>)"
    using assms(1,3,4) by (simp add: Run_def d split_def)
  then show ?thesis
    by (simp add: collect_dom collect_distinct)
qed

text \<open>
  C8 (the code departs from the claim): in \<^verbatim>\<open>handlers.go\<close> the mapping is never built and
  the result handler never invoked, because no handler can be registered. \<^verbatim>\<open>AddHandler\<close>
  creates the chain with \<^verbatim>\<open>new(safeList)\<close>, whose list is nil, and panics in \<^verbatim>\<open>PushBack\<close>:
  on the empty pipeline, on any pipeline whose chain is nil, and again on the chain the
  failed call has left behind, which stays without a list. A pipeline with a result handler
  and no chain runs without invoking the result handler. The variant with \<^verbatim>\<open>newSafeList()\<close>
  registers handlers as intended.
\<close>

theorem C8_AddHandler_panics:
  "AddHandler zero hdl = (Panicked, zero\<lparr>handlers := Some (SafeList None)\<rparr>)
   \<and> fst (AddHandler (h\<lparr>handlers := None\<rparr>) hdl) = Panicked
   \<and> handlers (snd (AddHandler (h\<lparr>handlers := None\<rparr>) hdl)) = Some (SafeList None)
   \<and> fst (AddHandler (h\<lparr>handlers := Some (SafeList None)\<rparr>) hdl) = Panicked
   \<and> handlers (snd (AddHandler (h\<lparr>handlers := Some (SafeList None)\<rparr>) hdl)) = Some (SafeList None)
   \<and> Run n (SetResultHandler zero rh) = (Returned (), (SetResultHandler zero rh)\<lparr>state := StatusRunning\<rparr>)"
  by (simp add: AddHandler_def new_safeList_def PushBack_def zero_def SetResultHandler_def
                Run_def drain_nil)

section \<open>The order of the sources\<close>

lemma callNext_ref: "ref (snd (callNext s)) = ref s"
  by (simp add: callNext_def split_def Let_def)

lemma AddSrcE_ok:
  "todoSrcE h \<noteq> Some (SafeList None) \<Longrightarrow>
   AddSrcE h s = (Returned (), h\<lparr>todoSrcE := Some (SafeList (Some (pendingE h @ [s])))\<rparr>)"
  by (cases "todoSrcE h")
     (auto simp: AddSrcE_def pendingE_def newSafeList_def PushBack_def
           split: safeList.splits option.splits)

lemma register_pending:
  "todoSrcE h \<noteq> Some (SafeList None) \<Longrightarrow>
   foldl (\<lambda>h s. snd (AddSrcE h s)) h srcs =
     (if srcs = [] then h else h\<lparr>todoSrcE := Some (SafeList (Some (pendingE h @ srcs)))\<rparr>)"
proof (induction srcs arbitrary: h)
  case Nil
  show ?case by simp
next
  case (Cons s ss)
  let ?h1 = "h\<lparr>todoSrcE := Some (SafeList (Some (pendingE h @ [s])))\<rparr>"
  have "foldl (\<lambda>h s. snd (AddSrcE h s)) ?h1 ss =
     (if ss = [] then ?h1 else ?h1\<lparr>todoSrcE := Some (SafeList (Some (pendingE ?h1 @ ss)))\<rparr>)"
    by (rule Cons.IH) simp
  then show ?case using Cons.prems by (simp add: AddSrcE_ok pendingE_def)
qed


lemma handleSrcE_chain:
  "handlersE g = handlersE h \<Longrightarrow> handleSrcE n h s = (out, s1, h1) \<Longrightarrow>
   handleSrcE n g s = (out, s1, g\<lparr>handlersE := handlersE h1\<rparr>) \<and> h1 = h\<lparr>handlersE := handlersE h1\<rparr>"
  by (cases "handlersE h") (auto simp: handleSrcE_def split: prod.splits)

lemma visitsE_chain:
  "handlersE g = handlersE h \<Longrightarrow>
   fst (visitsE n chk g srcs) = fst (visitsE n chk h srcs)
   \<and> handlersE (snd (visitsE n chk g srcs)) = handlersE (snd (visitsE n chk h srcs))"
proof (induction srcs arbitrary: g h)
  case Nil
  then show ?case by simp
next
  case (Cons s ss)
  obtain out s1 h1 where hs: "handleSrcE n h s = (out, s1, h1)"
    by (cases "handleSrcE n h s") auto
  have gs: "handleSrcE n g s = (out, s1, g\<lparr>handlersE := handlersE h1\<rparr>)"
    using handleSrcE_chain [OF Cons.prems hs] by simp
  have ih: "fst (visitsE n chk (g\<lparr>handlersE := handlersE h1\<rparr>) ss) = fst (visitsE n chk h1 ss)
     \<and> handlersE (snd (visitsE n chk (g\<lparr>handlersE := handlersE h1\<rparr>) ss))
         = handlersE (snd (visitsE n chk h1 ss))"
    by (rule Cons.IH) simp
  show ?case using ih by (simp add: hs gs split_def Let_def)
qed

lemma doneE_update: "doneE (h\<lparr>doneSrcE := Some (SafeList (Some xs))\<rparr>) = xs"
  by (simp add: doneE_def)

lemma pendingE_done_update: "pendingE (h\<lparr>doneSrcE := x\<rparr>) = pendingE h"
  by (simp add: pendingE_def)

lemma drainE_visits:
  "todoSrcE h = Some (SafeList (Some srcs)) \<Longrightarrow> doneSrcE h \<noteq> Some (SafeList None) \<Longrightarrow>
   ErrCheck h = Some chk \<Longrightarrow>
   fst (drainE n h) = verdict chk (fst (visitsE n chk h srcs))
   \<and> doneE (snd (drainE n h))
       = doneE h @ map snd (filter (\<lambda>v. returned (fst v)) (fst (visitsE n chk h srcs)))
   \<and> pendingE (snd (drainE n h)) = drop (length (fst (visitsE n chk h srcs))) srcs
   \<and> handlersE (snd (drainE n h)) = handlersE (snd (visitsE n chk h srcs))"
proof (induction srcs arbitrary: h)
  case Nil
  then show ?case by (simp add: drainE_empty verdict_def pendingE_def)
next
  case (Cons s ss)
  let ?h1 = "h\<lparr>todoSrcE := Some (SafeList (Some ss))\<rparr>"
  obtain out s1 h2 where hs: "handleSrcE n ?h1 s = (out, s1, h2)"
    by (cases "handleSrcE n ?h1 s") auto
  have hs0: "handleSrcE n h s = (out, s1, h\<lparr>handlersE := handlersE h2\<rparr>)"
    using handleSrcE_chain [OF _ hs, of h] by simp
  have fr2: "todoSrcE h2 = Some (SafeList (Some ss))" "doneSrcE h2 = doneSrcE h"
            "ErrCheck h2 = ErrCheck h"
    using handleSrcE_todo [OF hs] handleSrcE_frame [OF hs] by simp_all
  let ?h3 = "h2\<lparr>doneSrcE := Some (SafeList (Some (doneE h2 @ [s1])))\<rparr>"
  have sd: "srcDoneE h2 s1 = (Returned (), ?h3)"
    using Cons.prems(2) fr2(2) by (simp add: srcDoneE_ok)
  have dn: "doneE ?h3 = doneE h @ [s1]" "doneE h2 = doneE h"
    using fr2(2) by (simp_all add: doneE_def)
  have pd: "pendingE h2 = ss" "pendingE ?h3 = ss"
    using fr2(1) by (simp_all add: pendingE_def)
  have vis: "fst (visitsE n chk (h\<lparr>handlersE := handlersE h2\<rparr>) ss) = fst (visitsE n chk ?h3 ss)"
    "handlersE (snd (visitsE n chk (h\<lparr>handlersE := handlersE h2\<rparr>) ss))
      = handlersE (snd (visitsE n chk ?h3 ss))"
    using visitsE_chain [of "h\<lparr>handlersE := handlersE h2\<rparr>" ?h3 n chk ss] by simp_all
  have ih: "fst (drainE n ?h3) = verdict chk (fst (visitsE n chk ?h3 ss))
   \<and> doneE (snd (drainE n ?h3))
       = doneE ?h3 @ map snd (filter (\<lambda>v. returned (fst v)) (fst (visitsE n chk ?h3 ss)))
   \<and> pendingE (snd (drainE n ?h3)) = drop (length (fst (visitsE n chk ?h3 ss))) ss
   \<and> handlersE (snd (drainE n ?h3)) = handlersE (snd (visitsE n chk ?h3 ss))"
    using fr2 Cons.prems by (intro Cons.IH) simp_all
  show ?case
  proof (cases out)
    case (Returned err)
    show ?thesis
    proof (cases "goesOn chk out")
      case True
      then have step: "drainE n h = drainE n ?h3"
        using Returned fr2(3) Cons.prems(3)
        by (auto simp: drainE_cons [OF Cons.prems(1)] hs sd goesOn_def)
      have v: "visitsE n chk h (s # ss) =
                 ((out, s1) # fst (visitsE n chk (h\<lparr>handlersE := handlersE h2\<rparr>) ss),
                  snd (visitsE n chk (h\<lparr>handlersE := handlersE h2\<rparr>) ss))"
        using True by (simp add: hs0 split_def Let_def)
      show ?thesis
        using ih Returned True
        by (simp add: step v vis dn doneE_update verdict_def returned_def del: visitsE.simps)
    next
      case False
      then have stop: "drainE n h = (Returned err, ?h3)"
        using Returned fr2(3) Cons.prems(3)
        by (auto simp: drainE_cons [OF Cons.prems(1)] hs sd goesOn_def)
      have v: "visitsE n chk h (s # ss) = ([(out, s1)], h\<lparr>handlersE := handlersE h2\<rparr>)"
        using False by (simp add: hs0)
      show ?thesis
        using Returned False
        by (simp add: stop v dn doneE_update pendingE_done_update pd verdict_def returned_def del: visitsE.simps)
    qed
  next
    case Panicked
    then have stop: "drainE n h = (Panicked, h2)"
      by (simp add: drainE_cons [OF Cons.prems(1)] hs)
    have v: "visitsE n chk h (s # ss) = ([(out, s1)], h\<lparr>handlersE := handlersE h2\<rparr>)"
      using Panicked by (simp add: hs0 goesOn_def)
    show ?thesis
      using Panicked by (simp add: stop v dn doneE_update pendingE_done_update pd verdict_def returned_def del: visitsE.simps)
  next
    case OutOfFuel
    then have stop: "drainE n h = (OutOfFuel, h2)"
      by (simp add: drainE_cons [OF Cons.prems(1)] hs)
    have v: "visitsE n chk h (s # ss) = ([(out, s1)], h\<lparr>handlersE := handlersE h2\<rparr>)"
      using OutOfFuel by (simp add: hs0 goesOn_def)
    show ?thesis
      using OutOfFuel by (simp add: stop v dn doneE_update pendingE_done_update pd verdict_def returned_def del: visitsE.simps)
  qed
qed


lemma AddHandlerE_ok:
  "handlersE h \<noteq> Some (SafeList None) \<Longrightarrow>
   AddHandlerE h hdl =
     (Returned (),
      h\<lparr>handlersE := Some (SafeList (Some
            ((case handlersE h of Some (SafeList (Some xs)) \<Rightarrow> xs | _ \<Rightarrow> []) @ [hdl])))\<rparr>)"
  by (cases "handlersE h")
     (auto simp: AddHandlerE_def newSafeList_def PushBack_def
           split: safeList.splits option.splits)

lemma chainedE_step:
  "handlersE h = Some (SafeList (Some xs)) \<Longrightarrow>
   foldl (\<lambda>h hdl. snd (AddHandlerE h hdl)) h ys = h\<lparr>handlersE := Some (SafeList (Some (xs @ ys)))\<rparr>"
proof (induction ys arbitrary: h xs)
  case Nil
  then show ?case by simp
next
  case (Cons y ys)
  have "foldl (\<lambda>h hdl. snd (AddHandlerE h hdl))
          (h\<lparr>handlersE := Some (SafeList (Some (xs @ [y])))\<rparr>) ys
        = h\<lparr>handlersE := Some (SafeList (Some (xs @ [y])))\<rparr>
           \<lparr>handlersE := Some (SafeList (Some ((xs @ [y]) @ ys)))\<rparr>"
    by (rule Cons.IH) simp
  then show ?case using Cons.prems by (simp add: AddHandlerE_ok)
qed

lemma chainedE_zero:
  "chainedE (zeroE\<lparr>ErrCheck := c\<rparr>) hdls =
     zeroE\<lparr>ErrCheck := c, handlersE := (if hdls = [] then None else Some (SafeList (Some hdls)))\<rparr>"
proof (cases hdls)
  case Nil
  then show ?thesis by (simp add: chainedE_def zeroE_def)
next
  case (Cons x xs)
  show ?thesis
    unfolding chainedE_def Cons
    by (simp add: AddHandlerE_ok zeroE_def chainedE_step [where xs = "[x]"])
qed

lemma handleSrcE_ref: "handleSrcE n h s = (out, s1, h1) \<Longrightarrow> ref s1 = ref s"
proof (cases "handlersE h")
  case None
  assume "handleSrcE n h s = (out, s1, h1)"
  then show ?thesis using None by (simp add: handleSrcE_def)
next
  case (Some l)
  assume hs: "handleSrcE n h s = (out, s1, h1)"
  have loop_ref: "ref (fst (snd (loopE n l' s'))) = ref s'" for l' :: "'b HandlerE list option" and s' :: "'a Source"
  proof (induction n arbitrary: l' s')
    case 0
    show ?case by simp
  next
    case (Suc n)
    have r: "ref (snd (callNext s')) = ref s'" by (rule callNext_ref)
    show ?case
      using Suc.IH r by (cases l') (simp_all add: split_def Let_def)
  qed
  show ?thesis
    using hs loop_ref [of "List l" s] by (auto simp: handleSrcE_def Some split_def Let_def)
qed

lemma visitsE_refs:
  "map (\<lambda>v. ref (snd v)) (fst (visitsE n chk h srcs))
     = map ref (take (length (fst (visitsE n chk h srcs))) srcs)"
proof (induction srcs arbitrary: h)
  case Nil
  show ?case by simp
next
  case (Cons s ss)
  obtain out s1 h1 where hs: "handleSrcE n h s = (out, s1, h1)"
    by (cases "handleSrcE n h s") auto
  have r: "ref s1 = ref s" using hs by (rule handleSrcE_ref)
  show ?case using Cons.IH [of h1] r by (simp add: hs split_def Let_def)
qed

lemma visitsE_nonempty: "srcs \<noteq> [] \<Longrightarrow> fst (visitsE n chk h srcs) \<noteq> []"
  by (cases srcs) (simp_all add: split_def Let_def)

lemma visitsE_all:
  "\<forall>v\<in>set (fst (visitsE n chk h srcs)). goesOn chk (fst v) \<Longrightarrow>
   length (fst (visitsE n chk h srcs)) = length srcs"
proof (induction srcs arbitrary: h)
  case Nil
  show ?case by simp
next
  case (Cons s ss)
  obtain out s1 h1 where hs: "handleSrcE n h s = (out, s1, h1)"
    by (cases "handleSrcE n h s") auto
  show ?case
  proof (cases "goesOn chk out")
    case True
    then have "\<forall>v\<in>set (fst (visitsE n chk h1 ss)). goesOn chk (fst v)"
      using Cons.prems by (simp add: hs split_def Let_def)
    then have "length (fst (visitsE n chk h1 ss)) = length ss" by (rule Cons.IH)
    then show ?thesis using True by (simp add: hs split_def Let_def)
  next
    case False
    then show ?thesis using Cons.prems by (simp add: hs)
  qed
qed

text \<open>
  C7, as stated, fails: a source is not always drained before the next one is popped. In
  the error-returning variant \<^verbatim>\<open>handleSrc\<close> returns as soon as the last handler reports an
  error; with a handler that reports end-of-stream for every item, the first of two
  registered sources is moved to the done queue with its second item unread, and the second
  source is popped. With no handler registered a source is popped and marked done unread.
\<close>

theorem C7_sources_in_registration_order_counterexample:
  "RunE 3 (foldl (\<lambda>h s. snd (AddSrcE h s)) (snd (AddHandlerE zeroE stopE))
             [replay 1 [(VStr ''a'', None), (VStr ''b'', None)], replay 2 [(VStr ''c'', None)]]) =
     (Panicked,
      \<lparr>todoSrcE = Some (SafeList (Some [])),
       doneSrcE = Some (SafeList (Some [replay 1 [(VStr ''b'', None)], replay 2 []])),
       handlersE = Some (SafeList (Some [stopE\<lparr>hselfE := 2\<rparr>])),
       stateE = StatusRunning, ErrCheck = Some defaultErrFunc\<rparr>)
   \<and> RunE 3 (snd (AddSrcE (zeroE :: (script, nat) HandlersE)
                      (replay 1 [(VStr ''a'', None)]))) =
     (Panicked,
      \<lparr>todoSrcE = Some (SafeList (Some [])),
       doneSrcE = Some (SafeList (Some [replay 1 [(VStr ''a'', None)]])),
       handlersE = None, stateE = StatusRunning, ErrCheck = Some defaultErrFunc\<rparr>)"
  by (simp add: AddHandlerE_def AddSrcE_def zeroE_def RunE_def drainE_cons drainE_empty
                handleSrcE_def srcDoneE_def newSafeList_def PushBack_def eval_nat_numeral
                callNext_def replay_def stopE_def callHandleE_def defaultErrFunc_def)

text \<open>
  C7, amended: for every sequence of N sources (distinct objects) registered before a run of
  the error-returning variant, \<^verbatim>\<open>Run\<close> hands the sources to \<^verbatim>\<open>handleSrc\<close> in exactly their
  registration (FIFO) order, one at a time, and appends each to the done queue when its
  \<^verbatim>\<open>handleSrc\<close> has returned, before the next is popped. It goes through all N sources
  unless a \<^verbatim>\<open>handleSrc\<close> call does not return or returns an error that the error check does
  not let pass; the sources not reached stay pending, in order. A source is not always
  drained by its \<^verbatim>\<open>handleSrc\<close> call, as the counterexample shows.

  The theorem is about every pipeline a caller can build before its first run: any error
  check \<open>c\<close>, any handlers \<open>hdls\<close>, any sources \<open>srcs\<close>, and every bound \<open>n\<close>. The outcome,
  the done queue, the pending queue and the handlers after \<^verbatim>\<open>Run\<close> are those of the record
  of visits, and the visited sources are the first registered ones, in registration order.
\<close>

theorem C7_sources_in_registration_order:
  "distinct (map ref (srcs :: 's Source list)) \<longrightarrow>
   (let h = registerE (chainedE (zeroE\<lparr>ErrCheck := c\<rparr>) (hdls :: 't HandlerE list)) srcs;
        chk = (case c of None \<Rightarrow> defaultErrFunc | Some f \<Rightarrow> f);
        vs = fst (visitsE n chk h srcs)
    in fst (RunE n h) = (if srcs = [] then Returned None else verdict chk vs)
       \<and> doneE (snd (RunE n h)) = map snd (filter (\<lambda>v. returned (fst v)) vs)
       \<and> pendingE (snd (RunE n h)) = drop (length vs) srcs
       \<and> handlersE (snd (RunE n h)) = handlersE (snd (visitsE n chk h srcs))
       \<and> map (\<lambda>v. ref (snd v)) vs = map ref (take (length vs) srcs)
       \<and> (srcs \<noteq> [] \<longrightarrow> vs \<noteq> [])
       \<and> ((\<forall>v\<in>set vs. goesOn chk (fst v)) \<longrightarrow> length vs = length srcs))"
proof -
  let ?z = "chainedE ((zeroE :: ('s, 't) HandlersE)\<lparr>ErrCheck := c\<rparr>) hdls"
  let ?h = "registerE ?z srcs"
  let ?chk = "case c of None \<Rightarrow> defaultErrFunc | Some f \<Rightarrow> f"
  let ?vs = "fst (visitsE n ?chk ?h srcs)"
  let ?h2 = "?h\<lparr>stateE := StatusRunning, ErrCheck := Some ?chk\<rparr>"
  have z: "todoSrcE ?z = None" "doneSrcE ?z = None" "stateE ?z = StatusInit" "ErrCheck ?z = c"
    unfolding chainedE_zero by (simp_all add: zeroE_def)
  have reg: "?h = (if srcs = [] then ?z else ?z\<lparr>todoSrcE := Some (SafeList (Some srcs))\<rparr>)"
    using z(1) register_pending [of ?z srcs]
    by (cases "srcs = []") (simp_all add: registerE_def pendingE_def)
  have st: "stateE ?h = StatusInit" "ErrCheck ?h = c"
    using z(3,4) by (simp_all add: reg)
  have same: "g\<lparr>ErrCheck := ErrCheck g\<rparr> = g" for g :: "('s, 't) HandlersE"
    by simp
  have run: "RunE n ?h = drainE n ?h2"
  proof (cases c)
    case None
    then show ?thesis using st by (simp add: RunE_def Let_def)
  next
    case (Some f)
    have eq: "?h\<lparr>stateE := StatusRunning\<rparr> = ?h2"
      using st(2) Some same [of "?h\<lparr>stateE := StatusRunning\<rparr>"] by simp
    have "RunE n ?h = drainE n (?h\<lparr>stateE := StatusRunning\<rparr>)"
      using st Some by (simp add: RunE_def Let_def)
    then show ?thesis using arg_cong [OF eq, of "drainE n"] by (rule trans)
  qed
  have vis: "fst (visitsE n ?chk ?h2 srcs) = ?vs"
    "handlersE (snd (visitsE n ?chk ?h2 srcs)) = handlersE (snd (visitsE n ?chk ?h srcs))"
    using visitsE_chain [of ?h2 ?h n ?chk srcs] by simp_all
  have main: "fst (RunE n ?h) = (if srcs = [] then Returned None else verdict ?chk ?vs)
       \<and> doneE (snd (RunE n ?h)) = map snd (filter (\<lambda>v. returned (fst v)) ?vs)
       \<and> pendingE (snd (RunE n ?h)) = drop (length ?vs) srcs
       \<and> handlersE (snd (RunE n ?h)) = handlersE (snd (visitsE n ?chk ?h srcs))"
  proof (cases "srcs = []")
    case True
    have hz: "?h = ?z" using reg True by simp
    have t: "todoSrcE ?h2 = None" unfolding hz using z(1) by simp
    have dr: "drainE n ?h2 = (Returned None, ?h2)" using t by (rule drainE_nil)
    have e: "doneE ?h2 = []" "pendingE ?h2 = []"
      unfolding hz using z(1,2) by (simp_all add: doneE_def pendingE_def)
    have v: "visitsE n ?chk ?h srcs = ([], ?h)" using True by simp
    show ?thesis
      unfolding run dr v using True e by simp
  next
    case False
    have hf: "?h = ?z\<lparr>todoSrcE := Some (SafeList (Some srcs))\<rparr>" using reg False by simp
    have a: "todoSrcE ?h2 = Some (SafeList (Some srcs))" unfolding hf by simp
    have b: "doneSrcE ?h2 \<noteq> Some (SafeList None)" unfolding hf using z(2) by simp
    have c: "ErrCheck ?h2 = Some ?chk" by simp
    have d: "doneE ?h2 = []" unfolding hf using z(2) by (simp add: doneE_def)
    show ?thesis
      using drainE_visits [OF a b c, of n] False unfolding run vis d by simp
  qed
  show ?thesis
    using main visitsE_refs [of n ?chk ?h srcs] visitsE_nonempty [of srcs n ?chk ?h]
          visitsE_all [of n ?chk ?h srcs]
    by (simp only: Let_def) blast
qed


theorem C7_sources_in_registration_order_witness:
  "distinct (map ref [replay 1 [(VStr ''a'', None)], replay 2 [(VStr ''b'', None)]])
   \<and> [replay 1 [(VStr ''a'', None)], replay 2 [(VStr ''b'', None)]] \<noteq> []
   \<and> fst (visitsE 3 defaultErrFunc
             (registerE (chainedE (zeroE\<lparr>ErrCheck := None\<rparr>) [stopE])
                [replay 1 [(VStr ''a'', None)], replay 2 [(VStr ''b'', None)]])
             [replay 1 [(VStr ''a'', None)], replay 2 [(VStr ''b'', None)]])
       = [(Returned (Some EOF), replay 1 []), (Returned (Some EOF), replay 2 [])]
   \<and> goesOn defaultErrFunc (Returned (Some EOF))
   \<and> fst (RunE 3 (registerE (chainedE (zeroE\<lparr>ErrCheck := None\<rparr>) [stopE])
                [replay 1 [(VStr ''a'', None)], replay 2 [(VStr ''b'', None)]])) = Panicked
   \<and> doneE (snd (RunE 3 (registerE (chainedE (zeroE\<lparr>ErrCheck := None\<rparr>) [stopE])
                [replay 1 [(VStr ''a'', None)], replay 2 [(VStr ''b'', None)]])))
       = [replay 1 [], replay 2 []]
   \<and> pendingE (snd (RunE 3 (registerE (chainedE (zeroE\<lparr>ErrCheck := None\<rparr>) [stopE])
                [replay 1 [(VStr ''a'', None)], replay 2 [(VStr ''b'', None)]]))) = []"
proof -
  let ?srcs = "[replay 1 [(VStr ''a'', None)], replay 2 [(VStr ''b'', None)]]"
  let ?h = "registerE (chainedE (zeroE\<lparr>ErrCheck := None\<rparr>) [stopE]) ?srcs"
  have d: "distinct (map ref ?srcs)" by (simp add: replay_def)
  have h: "?h = zeroE\<lparr>handlersE := Some (SafeList (Some [stopE])),
                       todoSrcE := Some (SafeList (Some ?srcs))\<rparr>"
    by (simp add: registerE_def chainedE_def AddHandlerE_def AddSrcE_def zeroE_def
                  newSafeList_def PushBack_def)
  have vs: "fst (visitsE 3 defaultErrFunc ?h ?srcs)
       = [(Returned (Some EOF), replay 1 []), (Returned (Some EOF), replay 2 [])]"
    unfolding h
    by (simp add: zeroE_def handleSrcE_def eval_nat_numeral callNext_def replay_def stopE_def
                  callHandleE_def goesOn_def defaultErrFunc_def)
  have go: "goesOn defaultErrFunc (Returned (Some EOF))"
    by (simp add: goesOn_def defaultErrFunc_def)
  have concl: "fst (RunE 3 ?h) = verdict defaultErrFunc (fst (visitsE 3 defaultErrFunc ?h ?srcs))"
    "doneE (snd (RunE 3 ?h))
       = map snd (filter (\<lambda>v. returned (fst v)) (fst (visitsE 3 defaultErrFunc ?h ?srcs)))"
    "pendingE (snd (RunE 3 ?h)) = drop (length (fst (visitsE 3 defaultErrFunc ?h ?srcs))) ?srcs"
    using C7_sources_in_registration_order [of ?srcs None "[stopE]" 3] d
    by (simp_all add: Let_def)
  have r1: "fst (RunE 3 ?h) = Panicked"
    unfolding concl(1) vs by (simp add: verdict_def goesOn_def defaultErrFunc_def)
  have r2: "doneE (snd (RunE 3 ?h)) = [replay 1 [], replay 2 []]"
    unfolding concl(2) vs by (simp add: returned_def)
  have r3: "pendingE (snd (RunE 3 ?h)) = []"
    unfolding concl(3) vs by simp
  show ?thesis
    by (intro conjI) (rule d vs go r1 r2 r3 | simp)+
qed


end
